theory Spec2Isabelle
  imports Main "HOL-Library.AList" "HOL-Library.Word"
begin

section \<open>Index builds coordinator: data model\<close>

text \<open>
  The embedding follows \<^verbatim>\<open>index_builds_coordinator.h/.cpp\<close>. A build identifier and a
  collection identifier are 128-bit values. A \<^verbatim>\<open>Timestamp\<close> is a natural number whose null
  value (\<^verbatim>\<open>Timestamp()\<close>) is 0. A \<^verbatim>\<open>Status\<close> keeps its error code; the message text is
  not modelled.
\<close>

type_synonym UUID = "128 word"
type_synonym Timestamp = nat

definition isNull :: "Timestamp \<Rightarrow> bool" where
  "isNull t = (t = 0)"

datatype ErrorCode =
    CannotCreateIndex
  | IndexBuildAlreadyInProgress
  | IndexBuildAborted
  | IndexAlreadyExists
  | IndexOptionsConflict
  | IndexKeySpecsConflict
  | NoSuchKey
  | NamespaceNotFound
  | InterruptedAtShutdown
  | DuplicateKey
  | OtherError nat

datatype Status = OK | Error ErrorCode

definition isOK :: "Status \<Rightarrow> bool" where
  "isOK st = (st = OK)"

text \<open>\<^verbatim>\<open>Status::withContext\<close> prefixes the message and keeps the code.\<close>

definition withContext :: "Status \<Rightarrow> Status" where
  "withContext st = st"

text \<open>
  How a call ends: it returns, it throws a \<^verbatim>\<open>DBException\<close> carrying a status
  (\<^verbatim>\<open>uassert\<close>, \<^verbatim>\<open>uassertStatusOK\<close>), it terminates the process (\<^verbatim>\<open>invariant\<close>,
  \<^verbatim>\<open>fassert\<close>), or it stays blocked on a condition variable whose predicate is false.
\<close>

datatype 'a outcome = Returned 'a | Thrown Status | InvariantFailure | Blocked

definition bind_outcome :: "'a outcome \<Rightarrow> ('a \<Rightarrow> 'b outcome) \<Rightarrow> 'b outcome" where
  "bind_outcome m f =
     (case m of
        Returned x \<Rightarrow> f x
      | Thrown st \<Rightarrow> Thrown st
      | InvariantFailure \<Rightarrow> InvariantFailure
      | Blocked \<Rightarrow> Blocked)"

datatype IndexBuildProtocol = kSinglePhase | kTwoPhase

text \<open>An index specification: its name, whether it declares uniqueness, its key pattern.\<close>

record IndexSpec =
  specName :: string
  specUnique :: bool
  specKey :: string

record IndexCatalogStats =
  numIndexesBefore :: int
  numIndexesAfter :: int

text \<open>
  Modelled from the spec: \<^verbatim>\<open>repl_index_build_state.h\<close> is not among the sources. The
  fields are the ones the coordinator reads and writes and the ones section 3 of the spec
  lists. The promise is unset (\<open>None\<close>) until the driver fulfils it.
\<close>

record ReplIndexBuildState =
  buildUUID :: UUID
  collectionUUID :: UUID
  dbName :: string
  indexNames :: "string list"
  indexSpecs :: "IndexSpec list"
  protocol :: IndexBuildProtocol
  commitQuorum :: "nat option"
  stats :: IndexCatalogStats
  isCommitReady :: bool
  commitTimestamp :: Timestamp
  aborted :: bool
  abortTimestamp :: Timestamp
  abortReason :: string
  sharedPromise :: "(Status + IndexCatalogStats) option"

text \<open>
  Modelled from the spec: the constructor of the build state record. The index names are
  derived from the specifications; the signalling state starts cleared.
\<close>

definition make_ReplIndexBuildState ::
  "UUID \<Rightarrow> UUID \<Rightarrow> string \<Rightarrow> IndexSpec list \<Rightarrow> IndexBuildProtocol \<Rightarrow> nat option
     \<Rightarrow> ReplIndexBuildState" where
  "make_ReplIndexBuildState bid cid db specs proto quorum =
     \<lparr> buildUUID = bid, collectionUUID = cid, dbName = db,
       indexNames = map specName specs, indexSpecs = specs,
       protocol = proto, commitQuorum = quorum,
       stats = \<lparr> numIndexesBefore = 0, numIndexesAfter = 0 \<rparr>,
       isCommitReady = False, commitTimestamp = 0,
       aborted = False, abortTimestamp = 0, abortReason = [],
       sharedPromise = None \<rparr>"

text \<open>
  Modelled from the spec: the trackers (\<^verbatim>\<open>collection_index_builds_tracker.h\<close>,
  \<^verbatim>\<open>database_index_builds_tracker.h\<close>) are not among the sources. A collection tracker
  maps an index name to the handle of its build and knows the builds of the collection; a
  database tracker knows the builds of the database. A handle is the build identifier:
  the record itself lives in the by-id mapping of the registry, which is how the shared
  pointers of the source alias one record. The count of a tracker is the number of its
  handles.
\<close>

record CollectionIndexBuildsTracker =
  buildStateByBuildUUID :: "UUID list"
  buildStateByIndexName :: "(string \<times> UUID) list"

record DatabaseIndexBuildsTracker =
  dbAllIndexBuilds :: "UUID list"

text \<open>
  The coordinator's members guarded by \<^verbatim>\<open>_mutex\<close>. The hash maps are association lists
  (a key occurs at most once; iteration takes the list order). The value of a
  \<^verbatim>\<open>_databaseIndexBuilds\<close> entry is a shared pointer that can be null: \<open>None\<close>.
\<close>

record IndexBuildsCoordinator =
  disallowedDbs :: "(string \<times> int) list"
  disallowedCollections :: "(UUID \<times> int) list"
  databaseIndexBuilds :: "(string \<times> DatabaseIndexBuildsTracker option) list"
  collectionIndexBuilds :: "(UUID \<times> CollectionIndexBuildsTracker) list"
  allIndexBuilds :: "(UUID \<times> ReplIndexBuildState) list"

definition emptyCoordinator :: IndexBuildsCoordinator where
  "emptyCoordinator =
     \<lparr> disallowedDbs = [], disallowedCollections = [], databaseIndexBuilds = [],
       collectionIndexBuilds = [], allIndexBuilds = [] \<rparr>"

text \<open>
  Effects on collaborators that are outside the coordinator's own state: a broadcast on a
  record's condition variable, the calls into the \<^verbatim>\<open>IndexBuildsManager\<close> (the commit
  with the timestamp of its \<^verbatim>\<open>TimestampBlock\<close>), the calls into the op observer and the
  ghost timestamp of a catalog write.
\<close>

datatype Event =
    NotifyAll UUID
  | ManagerAbortIndexBuild UUID string
  | ManagerSetUpIndexBuild UUID
  | ManagerInterruptIndexBuild UUID
  | ManagerTearDownIndexBuild UUID "Timestamp option"
  | ManagerCommitIndexBuild UUID Timestamp
  | OpObserverOnAbortIndexBuild UUID Status
  | OpObserverOnCommitIndexBuild UUID
  | OpObserverOnCreateIndex UUID string
  | SetGhostCommitTimestampForCatalogWrite

section \<open>Lookup and the signal operations\<close>

definition getIndexBuild :: "IndexBuildsCoordinator \<Rightarrow> UUID \<Rightarrow> Status + ReplIndexBuildState" where
  "getIndexBuild s bid =
     (case map_of (allIndexBuilds s) bid of
        None \<Rightarrow> Inl (Error NoSuchKey)
      | Some replState \<Rightarrow> Inr replState)"

definition getIndexBuilds :: "IndexBuildsCoordinator \<Rightarrow> ReplIndexBuildState list" where
  "getIndexBuilds s = map snd (allIndexBuilds s)"

text \<open>
  \<^verbatim>\<open>joinIndexBuild\<close>: an unknown build returns at once; otherwise the caller waits on the
  promise with \<^verbatim>\<open>waitNoThrow\<close>, which reports an interruption as a status and never throws.
\<close>

definition joinIndexBuild :: "UUID \<Rightarrow> IndexBuildsCoordinator \<Rightarrow> unit outcome" where
  "joinIndexBuild bid s =
     (case getIndexBuild s bid of
        Inl _ \<Rightarrow> Returned ()
      | Inr replState \<Rightarrow>
          (case sharedPromise replState of None \<Rightarrow> Blocked | Some _ \<Rightarrow> Returned ()))"

text \<open>
  \<^verbatim>\<open>commitIndexBuild\<close>: the first argument is
  \<^verbatim>\<open>opCtx->recoveryUnit()->getCommitTimestamp()\<close>.
\<close>

definition commitIndexBuild ::
  "Timestamp \<Rightarrow> IndexSpec list \<Rightarrow> UUID \<Rightarrow> IndexBuildsCoordinator
     \<Rightarrow> (IndexBuildsCoordinator \<times> Event list) outcome" where
  "commitIndexBuild opCtxTs specs bid s =
     (case getIndexBuild s bid of
        Inl st \<Rightarrow> Thrown st
      | Inr replState \<Rightarrow>
          (let replState' = replState\<lparr>isCommitReady := True, commitTimestamp := opCtxTs\<rparr>
           in if isNull (commitTimestamp replState') then InvariantFailure
              else Returned (s\<lparr>allIndexBuilds := AList.update bid replState' (allIndexBuilds s)\<rparr>,
                             [NotifyAll bid])))"

text \<open>
  \<^verbatim>\<open>abortIndexBuildByBuildUUID\<close>: the manager is asked first, whatever it answers; then
  the record, when there is one, is marked.
\<close>

definition abortIndexBuildByBuildUUID ::
  "Timestamp \<Rightarrow> UUID \<Rightarrow> string \<Rightarrow> IndexBuildsCoordinator
     \<Rightarrow> (IndexBuildsCoordinator \<times> Event list) outcome" where
  "abortIndexBuildByBuildUUID opCtxTs bid reason s =
     (case getIndexBuild s bid of
        Inl _ \<Rightarrow> Returned (s, [ManagerAbortIndexBuild bid reason])
      | Inr replState \<Rightarrow>
          (let replState' = replState\<lparr>aborted := True, abortTimestamp := opCtxTs,
                                      abortReason := reason\<rparr>
           in Returned (s\<lparr>allIndexBuilds := AList.update bid replState' (allIndexBuilds s)\<rparr>,
                        [ManagerAbortIndexBuild bid reason, NotifyAll bid])))"

text \<open>
  \<^verbatim>\<open>forEachIndexBuild\<close> over the snapshot of \<^verbatim>\<open>_getIndexBuilds\<close>: every registered
  record is visited once, in iteration order, and written through its shared pointer.
\<close>

fun forEachIndexBuild ::
  "(UUID \<times> ReplIndexBuildState) list
     \<Rightarrow> (ReplIndexBuildState \<Rightarrow> (ReplIndexBuildState \<times> Event list) outcome)
     \<Rightarrow> ((UUID \<times> ReplIndexBuildState) list \<times> Event list) outcome" where
  "forEachIndexBuild [] onIndexBuild = Returned ([], [])"
| "forEachIndexBuild ((k, replState) # rest) onIndexBuild =
     bind_outcome (onIndexBuild replState) (\<lambda>(replState', evs).
       bind_outcome (forEachIndexBuild rest onIndexBuild) (\<lambda>(rest', evs').
         Returned ((k, replState') # rest', evs @ evs')))"

definition onStepUp_onIndexBuild ::
  "ReplIndexBuildState \<Rightarrow> (ReplIndexBuildState \<times> Event list) outcome" where
  "onStepUp_onIndexBuild replState =
     (if \<not> aborted replState then
        (if \<not> isNull (commitTimestamp replState) then InvariantFailure
         else if isCommitReady replState then InvariantFailure
         else Returned (replState\<lparr>isCommitReady := True\<rparr>, [NotifyAll (buildUUID replState)]))
      else Returned (replState, []))"

definition onStepUp :: "IndexBuildsCoordinator \<Rightarrow> (IndexBuildsCoordinator \<times> Event list) outcome" where
  "onStepUp s =
     bind_outcome (forEachIndexBuild (allIndexBuilds s) onStepUp_onIndexBuild) (\<lambda>(builds, evs).
       Returned (s\<lparr>allIndexBuilds := builds\<rparr>, evs))"

definition onRollback_onIndexBuild ::
  "ReplIndexBuildState \<Rightarrow> (ReplIndexBuildState \<times> Event list) outcome" where
  "onRollback_onIndexBuild replState =
     (if \<not> aborted replState then
        (if \<not> isNull (abortTimestamp replState) then InvariantFailure
         else if aborted replState then InvariantFailure
         else Returned (replState\<lparr>aborted := True, abortReason := ''rollback''\<rparr>,
                        [NotifyAll (buildUUID replState)]))
      else Returned (replState, []))"

definition onRollback :: "IndexBuildsCoordinator \<Rightarrow> (IndexBuildsCoordinator \<times> Event list) outcome" where
  "onRollback s =
     bind_outcome (forEachIndexBuild (allIndexBuilds s) onRollback_onIndexBuild) (\<lambda>(builds, evs).
       Returned (s\<lparr>allIndexBuilds := builds\<rparr>, evs))"

section \<open>Scoped blockers\<close>

definition stopIndexBuildsOnDatabase :: "string \<Rightarrow> IndexBuildsCoordinator \<Rightarrow> IndexBuildsCoordinator" where
  "stopIndexBuildsOnDatabase db s =
     (case map_of (disallowedDbs s) db of
        Some n \<Rightarrow> s\<lparr>disallowedDbs := AList.update db (n + 1) (disallowedDbs s)\<rparr>
      | None \<Rightarrow> s\<lparr>disallowedDbs := AList.update db 1 (disallowedDbs s)\<rparr>)"

definition stopIndexBuildsOnCollection :: "UUID \<Rightarrow> IndexBuildsCoordinator \<Rightarrow> IndexBuildsCoordinator" where
  "stopIndexBuildsOnCollection cid s =
     (case map_of (disallowedCollections s) cid of
        Some n \<Rightarrow> s\<lparr>disallowedCollections := AList.update cid (n + 1) (disallowedCollections s)\<rparr>
      | None \<Rightarrow> s\<lparr>disallowedCollections := AList.update cid 1 (disallowedCollections s)\<rparr>)"

definition allowIndexBuildsOnDatabase :: "string \<Rightarrow> IndexBuildsCoordinator \<Rightarrow> IndexBuildsCoordinator outcome" where
  "allowIndexBuildsOnDatabase db s =
     (case map_of (disallowedDbs s) db of
        None \<Rightarrow> InvariantFailure
      | Some n \<Rightarrow>
          if n = 0 then InvariantFailure
          else if n - 1 = 0 then Returned (s\<lparr>disallowedDbs := AList.delete db (disallowedDbs s)\<rparr>)
          else Returned (s\<lparr>disallowedDbs := AList.update db (n - 1) (disallowedDbs s)\<rparr>))"

definition allowIndexBuildsOnCollection :: "UUID \<Rightarrow> IndexBuildsCoordinator \<Rightarrow> IndexBuildsCoordinator outcome" where
  "allowIndexBuildsOnCollection cid s =
     (case map_of (disallowedCollections s) cid of
        None \<Rightarrow> InvariantFailure
      | Some n \<Rightarrow>
          if \<not> n > 0 then InvariantFailure
          else if n - 1 = 0 then
            Returned (s\<lparr>disallowedCollections := AList.delete cid (disallowedCollections s)\<rparr>)
          else Returned (s\<lparr>disallowedCollections := AList.update cid (n - 1) (disallowedCollections s)\<rparr>))"


section \<open>Trackers\<close>

text \<open>
  Modelled from the spec: the operations of the two trackers that the coordinator calls.
  Adding a build puts its handle under each of its index names; removing it takes the
  handle and its names out.
\<close>

definition emptyCollectionTracker :: CollectionIndexBuildsTracker where
  "emptyCollectionTracker = \<lparr> buildStateByBuildUUID = [], buildStateByIndexName = [] \<rparr>"

definition emptyDatabaseTracker :: DatabaseIndexBuildsTracker where
  "emptyDatabaseTracker = \<lparr> dbAllIndexBuilds = [] \<rparr>"

definition hasIndexBuildState :: "CollectionIndexBuildsTracker \<Rightarrow> string \<Rightarrow> bool" where
  "hasIndexBuildState t name = (map_of (buildStateByIndexName t) name \<noteq> None)"

definition getIndexBuildState :: "CollectionIndexBuildsTracker \<Rightarrow> string \<Rightarrow> UUID option" where
  "getIndexBuildState t name = map_of (buildStateByIndexName t) name"

definition coll_addIndexBuild ::
  "CollectionIndexBuildsTracker \<Rightarrow> ReplIndexBuildState \<Rightarrow> CollectionIndexBuildsTracker" where
  "coll_addIndexBuild t replState =
     t\<lparr> buildStateByBuildUUID := buildStateByBuildUUID t @ [buildUUID replState],
        buildStateByIndexName :=
          buildStateByIndexName t @ map (\<lambda>name. (name, buildUUID replState)) (indexNames replState) \<rparr>"

definition coll_removeIndexBuild ::
  "CollectionIndexBuildsTracker \<Rightarrow> ReplIndexBuildState \<Rightarrow> CollectionIndexBuildsTracker" where
  "coll_removeIndexBuild t replState =
     t\<lparr> buildStateByBuildUUID := removeAll (buildUUID replState) (buildStateByBuildUUID t),
        buildStateByIndexName :=
          filter (\<lambda>(name, h). name \<notin> set (indexNames replState)) (buildStateByIndexName t) \<rparr>"

definition coll_getNumberOfIndexBuilds :: "CollectionIndexBuildsTracker \<Rightarrow> nat" where
  "coll_getNumberOfIndexBuilds t = length (buildStateByBuildUUID t)"

definition db_addIndexBuild ::
  "DatabaseIndexBuildsTracker \<Rightarrow> ReplIndexBuildState \<Rightarrow> DatabaseIndexBuildsTracker" where
  "db_addIndexBuild t replState = t\<lparr> dbAllIndexBuilds := dbAllIndexBuilds t @ [buildUUID replState] \<rparr>"

definition db_removeIndexBuild :: "DatabaseIndexBuildsTracker \<Rightarrow> UUID \<Rightarrow> DatabaseIndexBuildsTracker" where
  "db_removeIndexBuild t bid = t\<lparr> dbAllIndexBuilds := removeAll bid (dbAllIndexBuilds t) \<rparr>"

definition db_getNumberOfIndexBuilds :: "DatabaseIndexBuildsTracker \<Rightarrow> nat" where
  "db_getNumberOfIndexBuilds t = length (dbAllIndexBuilds t)"

section \<open>Registration\<close>

text \<open>
  The name-conflict check of \<^verbatim>\<open>_registerIndexBuild\<close>: the requested names are tried in
  order and the first one the collection tracker knows decides. The tracker's handle is
  looked up in the by-id mapping; a handle without a record cannot occur in the source,
  where the tracker shares ownership of the record, and ends the call here.
\<close>

definition conflictStatus :: "ReplIndexBuildState \<Rightarrow> Status" where
  "conflictStatus existingIndexBuild =
     (let isAborted =
            (if isCommitReady existingIndexBuild then False
             else if aborted existingIndexBuild then True
             else False)
      in if isAborted then Error IndexBuildAborted else Error IndexBuildAlreadyInProgress)"

definition nameConflict :: "ReplIndexBuildState \<Rightarrow> IndexBuildsCoordinator \<Rightarrow> Status option outcome" where
  "nameConflict replState s =
     (case map_of (collectionIndexBuilds s) (collectionUUID replState) of
        None \<Rightarrow> Returned None
      | Some tracker \<Rightarrow>
          (case find (hasIndexBuildState tracker) (indexNames replState) of
             None \<Rightarrow> Returned None
           | Some name \<Rightarrow>
               (case getIndexBuildState tracker name of
                  None \<Rightarrow> InvariantFailure
                | Some h \<Rightarrow>
                    (case map_of (allIndexBuilds s) h of
                       None \<Rightarrow> InvariantFailure
                     | Some existingIndexBuild \<Rightarrow> Returned (Some (conflictStatus existingIndexBuild))))))"

text \<open>
  \<^verbatim>\<open>_registerIndexBuild\<close> returns a status; the registry changes only when it is OK.
  \<^verbatim>\<open>_databaseIndexBuilds[dbName]\<close> creates the entry when it is absent and the tracker
  when the pointer is null; \<^verbatim>\<open>_collectionIndexBuilds.insert\<close> keeps an existing tracker.
\<close>

definition registerIndexBuild ::
  "ReplIndexBuildState \<Rightarrow> IndexBuildsCoordinator \<Rightarrow> (Status \<times> IndexBuildsCoordinator) outcome" where
  "registerIndexBuild replState s =
     (if map_of (disallowedCollections s) (collectionUUID replState) \<noteq> None
         \<or> map_of (disallowedDbs s) (dbName replState) \<noteq> None
      then Returned (Error CannotCreateIndex, s)
      else
        bind_outcome (nameConflict replState s) (\<lambda>conflict.
          case conflict of
            Some st \<Rightarrow> Returned (st, s)
          | None \<Rightarrow>
              (let dbIndexBuilds =
                     (case map_of (databaseIndexBuilds s) (dbName replState) of
                        Some (Some t) \<Rightarrow> t
                      | _ \<Rightarrow> emptyDatabaseTracker);
                   dbs = AList.update (dbName replState)
                           (Some (db_addIndexBuild dbIndexBuilds replState)) (databaseIndexBuilds s);
                   collIndexBuilds =
                     (case map_of (collectionIndexBuilds s) (collectionUUID replState) of
                        Some t \<Rightarrow> t
                      | None \<Rightarrow> emptyCollectionTracker);
                   colls = AList.update (collectionUUID replState)
                             (coll_addIndexBuild collIndexBuilds replState) (collectionIndexBuilds s)
               in if map_of (allIndexBuilds s) (buildUUID replState) \<noteq> None then InvariantFailure
                  else Returned (OK,
                         s\<lparr> databaseIndexBuilds := dbs, collectionIndexBuilds := colls,
                            allIndexBuilds := allIndexBuilds s @ [(buildUUID replState, replState)] \<rparr>))))"

text \<open>
  \<^verbatim>\<open>_unregisterIndexBuild\<close>: each of its three \<^verbatim>\<open>invariant\<close>s is a branch.
\<close>

definition unregisterIndexBuild ::
  "ReplIndexBuildState \<Rightarrow> IndexBuildsCoordinator \<Rightarrow> IndexBuildsCoordinator outcome" where
  "unregisterIndexBuild replState s =
     (case map_of (databaseIndexBuilds s) (dbName replState) of
        None \<Rightarrow> InvariantFailure
      | Some None \<Rightarrow> InvariantFailure
      | Some (Some dbIndexBuilds) \<Rightarrow>
          (let dbIndexBuilds' = db_removeIndexBuild dbIndexBuilds (buildUUID replState);
               dbs = (if db_getNumberOfIndexBuilds dbIndexBuilds' = 0
                      then AList.delete (dbName replState) (databaseIndexBuilds s)
                      else AList.update (dbName replState) (Some dbIndexBuilds') (databaseIndexBuilds s))
           in case map_of (collectionIndexBuilds s) (collectionUUID replState) of
                None \<Rightarrow> InvariantFailure
              | Some collIndexBuilds \<Rightarrow>
                  (let collIndexBuilds' = coll_removeIndexBuild collIndexBuilds replState;
                       colls = (if coll_getNumberOfIndexBuilds collIndexBuilds' = 0
                                then AList.delete (collectionUUID replState) (collectionIndexBuilds s)
                                else AList.update (collectionUUID replState) collIndexBuilds'
                                       (collectionIndexBuilds s))
                   in if map_of (allIndexBuilds s) (buildUUID replState) = None then InvariantFailure
                      else Returned
                             (s\<lparr> databaseIndexBuilds := dbs, collectionIndexBuilds := colls,
                                 allIndexBuilds := AList.delete (buildUUID replState) (allIndexBuilds s) \<rparr>))))"

section \<open>Aborting the builds of a collection or a database\<close>

text \<open>
  The file-local helper \<^verbatim>\<open>abortIndexBuild\<close>. Its first argument answers
  \<^verbatim>\<open>IndexBuildsManager::abortIndexBuild\<close> for a build: whether the manager knew the builder.
\<close>

definition abortIndexBuild ::
  "(UUID \<Rightarrow> bool) \<Rightarrow> ReplIndexBuildState \<Rightarrow> string \<Rightarrow> ReplIndexBuildState \<times> Event list" where
  "abortIndexBuild managerAborts replIndexBuildState reason =
     (if managerAborts (buildUUID replIndexBuildState)
      then (replIndexBuildState, [ManagerAbortIndexBuild (buildUUID replIndexBuildState) reason])
      else (replIndexBuildState\<lparr>aborted := True, abortReason := reason\<rparr>,
            [ManagerAbortIndexBuild (buildUUID replIndexBuildState) reason]))"

text \<open>
  Modelled from the spec: \<^verbatim>\<open>runOperationOnAllBuilds\<close> of a tracker applies the helper to
  every build the tracker holds, through the handle (a handle without a record ends the
  call, as in the name-conflict check).
\<close>

fun runOperationOnAllBuilds ::
  "UUID list \<Rightarrow> (UUID \<Rightarrow> bool) \<Rightarrow> string \<Rightarrow> (UUID \<times> ReplIndexBuildState) list
     \<Rightarrow> ((UUID \<times> ReplIndexBuildState) list \<times> Event list) outcome" where
  "runOperationOnAllBuilds [] managerAborts reason builds = Returned (builds, [])"
| "runOperationOnAllBuilds (h # hs) managerAborts reason builds =
     (case map_of builds h of
        None \<Rightarrow> InvariantFailure
      | Some replState \<Rightarrow>
          (case abortIndexBuild managerAborts replState reason of
             (replState', evs) \<Rightarrow>
               bind_outcome (runOperationOnAllBuilds hs managerAborts reason (AList.update h replState' builds))
                 (\<lambda>(builds', evs'). Returned (builds', evs @ evs'))))"

text \<open>
  The end of \<^verbatim>\<open>_runIndexBuild\<close>: the driver of a build holds the record it looked up when
  it started, takes the registry mutex and unregisters that record. The driver's handle is
  the build identifier; a driver whose record is not in the registry fails the invariants
  of \<^verbatim>\<open>_unregisterIndexBuild\<close>. The promise the driver then fulfils belongs to a record
  that has left the registry.
\<close>

definition runIndexBuild_unregister :: "UUID \<Rightarrow> IndexBuildsCoordinator \<Rightarrow> IndexBuildsCoordinator outcome" where
  "runIndexBuild_unregister bid s =
     (case map_of (allIndexBuilds s) bid of
        None \<Rightarrow> InvariantFailure
      | Some replState \<Rightarrow> unregisterIndexBuild replState s)"

text \<open>
  Modelled from the spec: \<^verbatim>\<open>waitUntilNoIndexBuildsRemain\<close> of a tracker sleeps on the
  tracker's condition variable, which releases the registry mutex, until the tracker holds
  no build. The first argument reads the number of builds of the tracker the caller holds by
  its shared pointer (a tracker that has been erased from its map holds none). While the
  caller sleeps the drivers of builds end; \<open>finishing\<close> lists the builds whose drivers end
  during the sleep, in that order, each one unregistering its record. The caller returns as
  soon as the tracker is empty, and stays blocked when no further driver ends while the
  tracker still holds a build.
\<close>

fun waitUntilNoIndexBuildsRemain ::
  "(IndexBuildsCoordinator \<Rightarrow> nat) \<Rightarrow> UUID list \<Rightarrow> IndexBuildsCoordinator
     \<Rightarrow> IndexBuildsCoordinator outcome" where
  "waitUntilNoIndexBuildsRemain getNumberOfIndexBuilds [] s =
     (if getNumberOfIndexBuilds s = 0 then Returned s else Blocked)"
| "waitUntilNoIndexBuildsRemain getNumberOfIndexBuilds (bid # finishing) s =
     (if getNumberOfIndexBuilds s = 0 then Returned s
      else bind_outcome (runIndexBuild_unregister bid s)
             (waitUntilNoIndexBuildsRemain getNumberOfIndexBuilds finishing))"

definition numberOfCollectionIndexBuilds :: "UUID \<Rightarrow> IndexBuildsCoordinator \<Rightarrow> nat" where
  "numberOfCollectionIndexBuilds cid s =
     (case map_of (collectionIndexBuilds s) cid of
        None \<Rightarrow> 0
      | Some tracker \<Rightarrow> coll_getNumberOfIndexBuilds tracker)"

definition numberOfDatabaseIndexBuilds :: "string \<Rightarrow> IndexBuildsCoordinator \<Rightarrow> nat" where
  "numberOfDatabaseIndexBuilds db s =
     (case map_of (databaseIndexBuilds s) db of
        Some (Some tracker) \<Rightarrow> db_getNumberOfIndexBuilds tracker
      | _ \<Rightarrow> 0)"

text \<open>
  \<^verbatim>\<open>abortCollectionIndexBuilds\<close>: the blocker is asserted, every build of the collection
  is signalled, and the caller waits for the collection's tracker to empty.
\<close>

definition abortCollectionIndexBuilds ::
  "(UUID \<Rightarrow> bool) \<Rightarrow> UUID list \<Rightarrow> UUID \<Rightarrow> string \<Rightarrow> IndexBuildsCoordinator
     \<Rightarrow> (IndexBuildsCoordinator \<times> Event list) outcome" where
  "abortCollectionIndexBuilds managerAborts finishing cid reason s =
     (if map_of (disallowedCollections s) cid = None then InvariantFailure
      else
        (case map_of (collectionIndexBuilds s) cid of
           None \<Rightarrow> Returned (s, [])
         | Some tracker \<Rightarrow>
             bind_outcome
               (runOperationOnAllBuilds (buildStateByBuildUUID tracker) managerAborts reason
                  (allIndexBuilds s))
               (\<lambda>(builds, evs).
                  bind_outcome
                    (waitUntilNoIndexBuildsRemain (numberOfCollectionIndexBuilds cid) finishing
                       (s\<lparr>allIndexBuilds := builds\<rparr>))
                    (\<lambda>s'. Returned (s', evs)))))"

text \<open>
  \<^verbatim>\<open>abortDatabaseIndexBuilds\<close> reads the tracker with \<^verbatim>\<open>_databaseIndexBuilds[db]\<close>:
  the subscript operator of the hash map inserts a value-initialised entry, a null
  pointer, when the key is absent.
\<close>

definition subscriptDatabaseIndexBuilds ::
  "string \<Rightarrow> (string \<times> DatabaseIndexBuildsTracker option) list
     \<Rightarrow> (string \<times> DatabaseIndexBuildsTracker option) list \<times> DatabaseIndexBuildsTracker option" where
  "subscriptDatabaseIndexBuilds db m =
     (case map_of m db of
        None \<Rightarrow> (m @ [(db, None)], None)
      | Some v \<Rightarrow> (m, v))"

definition abortDatabaseIndexBuilds ::
  "(UUID \<Rightarrow> bool) \<Rightarrow> UUID list \<Rightarrow> string \<Rightarrow> string \<Rightarrow> IndexBuildsCoordinator
     \<Rightarrow> (IndexBuildsCoordinator \<times> Event list) outcome" where
  "abortDatabaseIndexBuilds managerAborts finishing db reason s =
     (if map_of (disallowedDbs s) db = None then InvariantFailure
      else
        (case subscriptDatabaseIndexBuilds db (databaseIndexBuilds s) of
           (dbs, dbIndexBuilds) \<Rightarrow>
             (case dbIndexBuilds of
                None \<Rightarrow> Returned (s\<lparr>databaseIndexBuilds := dbs\<rparr>, [])
              | Some tracker \<Rightarrow>
                  bind_outcome
                    (runOperationOnAllBuilds (dbAllIndexBuilds tracker) managerAborts reason
                       (allIndexBuilds s))
                    (\<lambda>(builds, evs).
                       bind_outcome
                         (waitUntilNoIndexBuildsRemain (numberOfDatabaseIndexBuilds db) finishing
                            (s\<lparr>databaseIndexBuilds := dbs, allIndexBuilds := builds\<rparr>))
                         (\<lambda>s'. Returned (s', evs))))))"

section \<open>Queries and the destructor\<close>

definition inProgForCollection :: "UUID \<Rightarrow> IndexBuildsCoordinator \<Rightarrow> bool" where
  "inProgForCollection cid s = (map_of (collectionIndexBuilds s) cid \<noteq> None)"

definition inProgForDb :: "string \<Rightarrow> IndexBuildsCoordinator \<Rightarrow> bool" where
  "inProgForDb db s = (map_of (databaseIndexBuilds s) db \<noteq> None)"

text \<open>\<^verbatim>\<open>~IndexBuildsCoordinator\<close>: four \<^verbatim>\<open>invariant\<close>s, in the order of the source.\<close>

definition destroyIndexBuildsCoordinator :: "IndexBuildsCoordinator \<Rightarrow> unit outcome" where
  "destroyIndexBuildsCoordinator s =
     (if databaseIndexBuilds s \<noteq> [] then InvariantFailure
      else if disallowedDbs s \<noteq> [] then InvariantFailure
      else if disallowedCollections s \<noteq> [] then InvariantFailure
      else if collectionIndexBuilds s \<noteq> [] then InvariantFailure
      else Returned ())"

section \<open>Setup pipeline\<close>

text \<open>
  The collaborators of setup are taken as they answer: the replication coordinator's two
  predicates for the namespace, and the collection's catalog (collation defaults, the
  filter of existing indexes, the shard key's verdict on a unique key, the index count).
\<close>

record ReplicationCoordinator =
  usingReplSets :: bool
  canAcceptWritesFor :: bool

record CollectionCatalogView =
  addCollationDefaultsToIndexSpecsForCreate :: "IndexSpec list \<Rightarrow> Status + IndexSpec list"
  removeExistingIndexes :: "IndexSpec list \<Rightarrow> IndexSpec list"
  isSharded :: bool
  isUniqueIndexCompatible :: "string \<Rightarrow> bool"
  numIndexesTotal :: int

definition checkShardKeyRestrictions :: "CollectionCatalogView \<Rightarrow> string \<Rightarrow> unit outcome" where
  "checkShardKeyRestrictions coll newIdxKey =
     (if \<not> isSharded coll then Returned ()
      else if isUniqueIndexCompatible coll newIdxKey then Returned ()
      else Thrown (Error CannotCreateIndex))"

fun checkUniqueSpecs :: "CollectionCatalogView \<Rightarrow> IndexSpec list \<Rightarrow> unit outcome" where
  "checkUniqueSpecs coll [] = Returned ()"
| "checkUniqueSpecs coll (spec # specs) =
     bind_outcome
       (if specUnique spec then checkShardKeyRestrictions coll (specKey spec) else Returned ())
       (\<lambda>_. checkUniqueSpecs coll specs)"

definition addDefaultsAndFilterExistingIndexes ::
  "ReplicationCoordinator \<Rightarrow> CollectionCatalogView \<Rightarrow> IndexSpec list \<Rightarrow> IndexSpec list outcome" where
  "addDefaultsAndFilterExistingIndexes replCoord coll specs =
     (if usingReplSets replCoord \<and> \<not> canAcceptWritesFor replCoord then Returned specs
      else
        (case addCollationDefaultsToIndexSpecsForCreate coll specs of
           Inl st \<Rightarrow> Thrown st
         | Inr specsWithCollationDefaults \<Rightarrow>
             (let filteredSpecs = removeExistingIndexes coll specsWithCollationDefaults
              in bind_outcome (checkUniqueSpecs coll filteredSpecs) (\<lambda>_. Returned filteredSpecs))))"

text \<open>
  The record \<^verbatim>\<open>_registerAndSetUpIndexBuild\<close> makes for the filtered specifications, with
  \<^verbatim>\<open>stats.numIndexesBefore\<close> set from the catalog.
\<close>

definition newReplIndexBuildState ::
  "UUID \<Rightarrow> UUID \<Rightarrow> string \<Rightarrow> IndexSpec list \<Rightarrow> IndexBuildProtocol \<Rightarrow> nat option \<Rightarrow> int
     \<Rightarrow> ReplIndexBuildState" where
  "newReplIndexBuildState bid cid db filteredSpecs proto quorum numIndexes =
     (let replIndexBuildState = make_ReplIndexBuildState bid cid db filteredSpecs proto quorum
      in replIndexBuildState\<lparr>stats := (stats replIndexBuildState)\<lparr>numIndexesBefore := numIndexes\<rparr>\<rparr>)"

text \<open>
  What \<^verbatim>\<open>_registerAndSetUpIndexBuild\<close> hands back: an error status, \<^verbatim>\<open>boost::none\<close> (the
  caller schedules the driver), or a future that is already fulfilled.
\<close>

datatype SetUpResult =
    SetUpError Status
  | NeedsScheduling
  | ReadyFuture IndexCatalogStats

text \<open>
  \<^verbatim>\<open>_registerAndSetUpIndexBuild\<close>. \<open>autoColl\<close> is the status of the collection lookup
  (\<^verbatim>\<open>AutoGetCollection\<close> throws when it fails), \<open>relax\<close> is
  \<^verbatim>\<open>shouldRelaxIndexConstraints\<close>, \<open>setUpStatus\<close> is what the manager's
  \<^verbatim>\<open>setUpIndexBuild\<close> returns. The promise of a record that failed setup is set after the
  record has left the registry and is not part of the coordinator's state.
\<close>

definition registerAndSetUpIndexBuild ::
  "ReplicationCoordinator \<Rightarrow> CollectionCatalogView \<Rightarrow> Status \<Rightarrow> bool \<Rightarrow> Status
     \<Rightarrow> string \<Rightarrow> UUID \<Rightarrow> IndexSpec list \<Rightarrow> UUID \<Rightarrow> IndexBuildProtocol \<Rightarrow> nat option
     \<Rightarrow> IndexBuildsCoordinator
     \<Rightarrow> (SetUpResult \<times> IndexBuildsCoordinator \<times> Event list) outcome" where
  "registerAndSetUpIndexBuild replCoord coll autoColl relax setUpStatus
       db cid specs bid proto quorum s =
     (if \<not> isOK autoColl then Thrown autoColl
      else
        (case addDefaultsAndFilterExistingIndexes replCoord coll specs of
           Thrown st \<Rightarrow> Returned (SetUpError st, s, [])
         | InvariantFailure \<Rightarrow> InvariantFailure
         | Blocked \<Rightarrow> Blocked
         | Returned filteredSpecs \<Rightarrow>
             (if length filteredSpecs = 0 then
                (let numIndexes = numIndexesTotal coll
                 in Returned (ReadyFuture \<lparr>numIndexesBefore = numIndexes, numIndexesAfter = numIndexes\<rparr>,
                              s, []))
              else
                (let replIndexBuildState =
                       newReplIndexBuildState bid cid db filteredSpecs proto quorum (numIndexesTotal coll)
                 in bind_outcome (registerIndexBuild replIndexBuildState s) (\<lambda>(status, s1).
                      if \<not> isOK status then Returned (SetUpError status, s1, [])
                      else if isOK setUpStatus then Returned (NeedsScheduling, s1, [ManagerSetUpIndexBuild bid])
                      else
                        bind_outcome (unregisterIndexBuild replIndexBuildState s1) (\<lambda>s2.
                          if setUpStatus = Error IndexAlreadyExists
                             \<or> ((setUpStatus = Error IndexOptionsConflict
                                  \<or> setUpStatus = Error IndexKeySpecsConflict) \<and> relax)
                          then
                            (let numIndexes = numIndexesBefore (stats replIndexBuildState)
                             in Returned (ReadyFuture \<lparr>numIndexesBefore = numIndexes,
                                                        numIndexesAfter = numIndexes\<rparr>,
                                          s2,
                                          [ManagerSetUpIndexBuild bid, ManagerTearDownIndexBuild bid None]))
                          else Returned (SetUpError setUpStatus, s2,
                                         [ManagerSetUpIndexBuild bid, ManagerTearDownIndexBuild bid None])))))))"

section \<open>Build driver\<close>

text \<open>
  What the \<^verbatim>\<open>IndexBuildsManager\<close> and the sharding state answer during one run of the
  phase machine, one status per call the driver makes. Locks are not modelled.
\<close>

record PhaseResults =
  startBuildingIndex :: Status
  drainFirst :: Status
  drainSecond :: Status
  checkDbVersion :: Status
  drainThird :: Status
  checkIndexConstraintViolations :: Status
  managerCommitIndexBuild :: Status

definition uassertStatusOK :: "Status \<Rightarrow> unit outcome" where
  "uassertStatusOK st = (if isOK st then Returned () else Thrown st)"

definition scanCollectionAndInsertKeysIntoSorter :: "PhaseResults \<Rightarrow> unit outcome" where
  "scanCollectionAndInsertKeysIntoSorter phases = uassertStatusOK (startBuildingIndex phases)"

definition insertKeysFromSideTablesWithoutBlockingWrites :: "PhaseResults \<Rightarrow> unit outcome" where
  "insertKeysFromSideTablesWithoutBlockingWrites phases =
     bind_outcome (uassertStatusOK (drainFirst phases)) (\<lambda>_. uassertStatusOK (drainSecond phases))"

definition shouldWaitForCommitOrAbort :: "ReplicationCoordinator \<Rightarrow> ReplIndexBuildState \<Rightarrow> bool" where
  "shouldWaitForCommitOrAbort replCoord replState =
     (if kTwoPhase \<noteq> protocol replState then False
      else if \<not> usingReplSets replCoord then False
      else if canAcceptWritesFor replCoord then False
      else True)"

text \<open>
  \<^verbatim>\<open>_waitForCommitOrAbort\<close>. \<open>waitStatus\<close> is what \<^verbatim>\<open>waitForConditionOrInterrupt\<close> ends
  with: OK when the predicate let it through, the interruption it throws otherwise.
  \<open>replState\<close> is the record as the driver finds it under the record's mutex; while neither
  flag is set the driver stays blocked.
\<close>

definition waitForCommitOrAbort ::
  "ReplicationCoordinator \<Rightarrow> Status \<Rightarrow> ReplIndexBuildState \<Rightarrow> Status \<Rightarrow> Timestamp outcome" where
  "waitForCommitOrAbort replCoord waitStatus replState preAbortStatus =
     (if shouldWaitForCommitOrAbort replCoord replState then
        (if \<not> isOK waitStatus then Thrown waitStatus
         else if \<not> (isCommitReady replState \<or> aborted replState) then Blocked
         else if isCommitReady replState then
           (if aborted replState then InvariantFailure
            else bind_outcome (uassertStatusOK (withContext preAbortStatus))
                   (\<lambda>_. Returned (commitTimestamp replState)))
         else if aborted replState then
           (if isCommitReady replState then InvariantFailure else Returned 0)
         else Returned 0)
      else Returned 0)"

text \<open>
  The server parameters the commit consults: the \<^verbatim>\<open>enableTwoPhaseIndexBuild\<close> switch and
  the two questions asked of \<^verbatim>\<open>serverGlobalParams.featureCompatibility\<close>.
\<close>

record ServerParameters =
  enableTwoPhaseIndexBuild :: bool
  isVersionInitialized :: bool
  isFullyUpgradedTo44 :: bool

definition supportsTwoPhaseIndexBuild :: "ServerParameters \<Rightarrow> bool" where
  "supportsTwoPhaseIndexBuild params =
     (if \<not> enableTwoPhaseIndexBuild params then False
      else if \<not> isVersionInitialized params then False
      else if \<not> isFullyUpgradedTo44 params then False
      else True)"

text \<open>
  The file-local \<^verbatim>\<open>onCommitIndexBuild\<close>, the body of the commit callback. \<open>replCoord\<close> is
  the replication coordinator when the callback runs, \<open>recoveryUnitCommitTimestamp\<close> is
  \<^verbatim>\<open>opCtx->recoveryUnit()->getCommitTimestamp()\<close>. The write lock it asserts is the
  exclusive collection lock that \<^verbatim>\<open>_insertKeysFromSideTablesAndCommit\<close> takes on entry. A
  two-phase build on a replica-set node that does not accept writes must carry a commit
  timestamp.
\<close>

definition onCommitIndexBuild ::
  "ServerParameters \<Rightarrow> ReplicationCoordinator \<Rightarrow> Timestamp \<Rightarrow> ReplIndexBuildState \<Rightarrow> bool
     \<Rightarrow> Event list outcome" where
  "onCommitIndexBuild params replCoord recoveryUnitCommitTimestamp replState replSetAndNotPrimaryAtStart =
     (if \<not> isVersionInitialized params then Returned []
      else if \<not> isFullyUpgradedTo44 params then Returned []
      else if kTwoPhase \<noteq> protocol replState then
        (if replSetAndNotPrimaryAtStart then Returned [SetGhostCommitTimestampForCatalogWrite]
         else Returned [OpObserverOnCommitIndexBuild (buildUUID replState)])
      else if \<not> usingReplSets replCoord then Returned []
      else if \<not> canAcceptWritesFor replCoord then
        (if isNull recoveryUnitCommitTimestamp then InvariantFailure else Returned [])
      else Returned [OpObserverOnCommitIndexBuild (buildUUID replState)])"

text \<open>The callback for each specification the manager commits.\<close>

definition onCreateEachFn ::
  "ServerParameters \<Rightarrow> bool \<Rightarrow> ReplIndexBuildState \<Rightarrow> IndexSpec \<Rightarrow> Event list" where
  "onCreateEachFn params replSetAndNotPrimaryAtStart replState spec =
     (if supportsTwoPhaseIndexBuild params then []
      else if replSetAndNotPrimaryAtStart then []
      else [OpObserverOnCreateIndex (collectionUUID replState) (specName spec)])"

text \<open>
  Modelled from the spec: \<^verbatim>\<open>IndexBuildsManager::commitIndexBuild\<close> is not among the
  sources. It invokes the two callbacks inside its write unit of work, the one for each
  specification of the build and then the commit callback, once the builder has committed;
  a failure of the builder is reported without the callbacks having run. The first argument
  is the status the builder's commit ends with.
\<close>

definition IndexBuildsManager_commitIndexBuild ::
  "Status \<Rightarrow> IndexSpec list \<Rightarrow> (IndexSpec \<Rightarrow> Event list) \<Rightarrow> Event list outcome
     \<Rightarrow> (Status \<times> Event list) outcome" where
  "IndexBuildsManager_commitIndexBuild builderStatus specs onCreateEach onCommit =
     (if \<not> isOK builderStatus then Returned (builderStatus, [])
      else bind_outcome onCommit (\<lambda>evs. Returned (OK, concat (map onCreateEach specs) @ evs)))"

text \<open>
  \<^verbatim>\<open>_insertKeysFromSideTablesAndCommit\<close>: the database version check, the third drain,
  the constraint check and the manager's commit under a \<^verbatim>\<open>TimestampBlock\<close> of the given
  timestamp. Modelled from the spec: the block makes that timestamp the commit timestamp of
  the driver's recovery unit, which is null when the given timestamp is. The catalog
  lookups of the driver succeed (a collection is not dropped while a build is registered on
  it) and are not modelled. The events returned are the manager's commit and what the
  callbacks did.
\<close>

definition insertKeysFromSideTablesAndCommit ::
  "ServerParameters \<Rightarrow> ReplicationCoordinator \<Rightarrow> bool \<Rightarrow> PhaseResults \<Rightarrow> ReplIndexBuildState
     \<Rightarrow> Timestamp \<Rightarrow> Event list outcome" where
  "insertKeysFromSideTablesAndCommit params replAtCommit replSetAndNotPrimaryAtStart phases replState
       commitIndexBuildTimestamp =
     bind_outcome (uassertStatusOK (checkDbVersion phases)) (\<lambda>_.
     bind_outcome (uassertStatusOK (drainThird phases)) (\<lambda>_.
     bind_outcome (uassertStatusOK (checkIndexConstraintViolations phases)) (\<lambda>_.
     bind_outcome
       (IndexBuildsManager_commitIndexBuild (managerCommitIndexBuild phases) (indexSpecs replState)
          (onCreateEachFn params replSetAndNotPrimaryAtStart replState)
          (onCommitIndexBuild params replAtCommit commitIndexBuildTimestamp replState
             replSetAndNotPrimaryAtStart))
       (\<lambda>(status, evs).
          bind_outcome (uassertStatusOK status) (\<lambda>_.
            Returned (ManagerCommitIndexBuild (buildUUID replState) commitIndexBuildTimestamp # evs))))))"

definition buildIndexSinglePhase ::
  "ServerParameters \<Rightarrow> ReplicationCoordinator \<Rightarrow> bool \<Rightarrow> PhaseResults \<Rightarrow> ReplIndexBuildState
     \<Rightarrow> Event list outcome" where
  "buildIndexSinglePhase params replAtCommit replSetAndNotPrimaryAtStart phases replState =
     bind_outcome (scanCollectionAndInsertKeysIntoSorter phases) (\<lambda>_.
     bind_outcome (insertKeysFromSideTablesWithoutBlockingWrites phases) (\<lambda>_.
       insertKeysFromSideTablesAndCommit params replAtCommit replSetAndNotPrimaryAtStart phases
         replState 0))"

text \<open>
  \<^verbatim>\<open>_buildIndexTwoPhase\<close>. The replication coordinator is consulted three times: in the
  handler of a failed first part (\<open>replAtCatch\<close>), at the wait (\<open>replAtWait\<close>) and in the
  commit callback (\<open>replAtCommit\<close>).
\<close>

definition holdOrRethrow :: "ReplicationCoordinator \<Rightarrow> Status \<Rightarrow> Status outcome" where
  "holdOrRethrow replAtCatch ex =
     (let replSetAndNotPrimary = (usingReplSets replAtCatch \<and> \<not> canAcceptWritesFor replAtCatch)
      in if \<not> replSetAndNotPrimary then Thrown ex
         else if ex = Error InterruptedAtShutdown then Thrown ex
         else Returned ex)"

text \<open>The body of the try block: the scan, then the first and the second drain.\<close>

definition scanAndFirstDrains :: "PhaseResults \<Rightarrow> unit outcome" where
  "scanAndFirstDrains phases =
     bind_outcome (scanCollectionAndInsertKeysIntoSorter phases)
       (\<lambda>_. insertKeysFromSideTablesWithoutBlockingWrites phases)"

definition buildIndexTwoPhase ::
  "ServerParameters \<Rightarrow> ReplicationCoordinator \<Rightarrow> ReplicationCoordinator \<Rightarrow> ReplicationCoordinator
     \<Rightarrow> Status \<Rightarrow> bool \<Rightarrow> PhaseResults \<Rightarrow> ReplIndexBuildState \<Rightarrow> Event list outcome" where
  "buildIndexTwoPhase params replAtCatch replAtWait replAtCommit waitStatus
       replSetAndNotPrimaryAtStart phases replState =
     bind_outcome
       (case scanAndFirstDrains phases of
          Returned _ \<Rightarrow> Returned OK
        | Thrown ex \<Rightarrow> holdOrRethrow replAtCatch ex
        | InvariantFailure \<Rightarrow> InvariantFailure
        | Blocked \<Rightarrow> Blocked)
       (\<lambda>preAbortStatus.
          bind_outcome (waitForCommitOrAbort replAtWait waitStatus replState preAbortStatus)
            (\<lambda>commitIndexBuildTimestamp.
               insertKeysFromSideTablesAndCommit params replAtCommit replSetAndNotPrimaryAtStart
                 phases replState commitIndexBuildTimestamp))"

definition buildIndex ::
  "ServerParameters \<Rightarrow> ReplicationCoordinator \<Rightarrow> ReplicationCoordinator \<Rightarrow> ReplicationCoordinator
     \<Rightarrow> Status \<Rightarrow> bool \<Rightarrow> PhaseResults \<Rightarrow> ReplIndexBuildState \<Rightarrow> Event list outcome" where
  "buildIndex params replAtCatch replAtWait replAtCommit waitStatus
       replSetAndNotPrimaryAtStart phases replState =
     (if kSinglePhase = protocol replState
      then buildIndexSinglePhase params replAtCommit replSetAndNotPrimaryAtStart phases replState
      else if kTwoPhase \<noteq> protocol replState then InvariantFailure
      else buildIndexTwoPhase params replAtCatch replAtWait replAtCommit waitStatus
             replSetAndNotPrimaryAtStart phases replState)"

text \<open>
  \<^verbatim>\<open>_runIndexBuildInner\<close> after \<^verbatim>\<open>_buildIndex\<close> has ended with \<open>built\<close>: the status the
  try block leaves, the treatment of a shutdown interruption, the cleanup and the final
  verdict. \<open>atStart\<close> is \<^verbatim>\<open>indexBuildOptions.replSetAndNotPrimaryAtStart\<close>, \<open>replCoord\<close>
  the replication coordinator at cleanup, \<open>numIndexes\<close> the catalog's count after the
  build. \<^verbatim>\<open>fassert\<close> ends the process like a failed \<^verbatim>\<open>invariant\<close>.
\<close>

definition cleanUpFailedIndexBuild ::
  "bool \<Rightarrow> ReplicationCoordinator \<Rightarrow> Status \<Rightarrow> ReplIndexBuildState \<Rightarrow> Event list outcome" where
  "cleanUpFailedIndexBuild atStart replCoord status replState =
     (if \<not> atStart then
        (if usingReplSets replCoord \<and> canAcceptWritesFor replCoord
         then Returned [OpObserverOnAbortIndexBuild (buildUUID replState) status,
                        ManagerTearDownIndexBuild (buildUUID replState) None]
         else Returned [ManagerTearDownIndexBuild (buildUUID replState) None])
      else
        (if status = Error IndexBuildAborted then
           (if \<not> aborted replState then InvariantFailure
            else Returned [ManagerTearDownIndexBuild (buildUUID replState)
                             (Some (abortTimestamp replState))])
         else Returned [ManagerTearDownIndexBuild (buildUUID replState) (Some 0)]))"

definition runIndexBuildInner ::
  "bool \<Rightarrow> ReplicationCoordinator \<Rightarrow> int \<Rightarrow> Event list outcome \<Rightarrow> ReplIndexBuildState
     \<Rightarrow> (ReplIndexBuildState \<times> Event list) outcome" where
  "runIndexBuildInner atStart replCoord numIndexes built replState =
     (case built of
        InvariantFailure \<Rightarrow> InvariantFailure
      | Blocked \<Rightarrow> Blocked
      | Returned committed \<Rightarrow>
          Returned (replState\<lparr>stats := (stats replState)\<lparr>numIndexesAfter := numIndexes\<rparr>\<rparr>,
                    committed @ [ManagerTearDownIndexBuild (buildUUID replState) None])
      | Thrown status \<Rightarrow>
          (if status = Error InterruptedAtShutdown then
             (if atStart then
                Returned (replState\<lparr>stats :=
                            (stats replState)\<lparr>numIndexesAfter := numIndexesBefore (stats replState)\<rparr>\<rparr>,
                          [ManagerInterruptIndexBuild (buildUUID replState),
                           ManagerTearDownIndexBuild (buildUUID replState) None])
              else
                bind_outcome (cleanUpFailedIndexBuild atStart replCoord status replState)
                  (\<lambda>evs. Thrown status))
           else
             bind_outcome (cleanUpFailedIndexBuild atStart replCoord status replState) (\<lambda>evs.
               if atStart then
                 (if status = Error IndexBuildAborted then Returned (replState, evs)
                  else InvariantFailure)
               else Thrown status)))"

text \<open>
  The invariant of the registry and its trackers (section 3 of the spec): keys are unique;
  a record is filed under its own build identifier, and its collection and its database
  have a tracker; the tracker of a collection holds exactly the registered builds of that
  collection and at least one; an entry of the database map holds a tracker, which holds
  exactly the registered builds of that database and at least one.
\<close>

definition buildsOfCollection :: "IndexBuildsCoordinator \<Rightarrow> UUID \<Rightarrow> UUID list" where
  "buildsOfCollection s cid =
     map fst (filter (\<lambda>(bid, r). collectionUUID r = cid) (allIndexBuilds s))"

definition buildsOfDatabase :: "IndexBuildsCoordinator \<Rightarrow> string \<Rightarrow> UUID list" where
  "buildsOfDatabase s db =
     map fst (filter (\<lambda>(bid, r). dbName r = db) (allIndexBuilds s))"

definition registryInvariant :: "IndexBuildsCoordinator \<Rightarrow> bool" where
  "registryInvariant s =
     (distinct (map fst (allIndexBuilds s))
      \<and> distinct (map fst (collectionIndexBuilds s))
      \<and> distinct (map fst (databaseIndexBuilds s))
      \<and> (\<forall>(bid, r) \<in> set (allIndexBuilds s).
            buildUUID r = bid
            \<and> map_of (collectionIndexBuilds s) (collectionUUID r) \<noteq> None
            \<and> map_of (databaseIndexBuilds s) (dbName r) \<noteq> None)
      \<and> (\<forall>(cid, t) \<in> set (collectionIndexBuilds s).
            buildStateByBuildUUID t = buildsOfCollection s cid \<and> buildStateByBuildUUID t \<noteq> [])
      \<and> (\<forall>(db, t) \<in> set (databaseIndexBuilds s).
            case t of
              None \<Rightarrow> False
            | Some tr \<Rightarrow> dbAllIndexBuilds tr = buildsOfDatabase s db \<and> dbAllIndexBuilds tr \<noteq> []))"

text \<open>
  Two registry entries are the same build when they agree on the key and on the three
  fields that file a record: signals change none of them.
\<close>

definition sameBuild :: "UUID \<times> ReplIndexBuildState \<Rightarrow> UUID \<times> ReplIndexBuildState \<Rightarrow> bool" where
  "sameBuild x y =
     (fst y = fst x \<and> buildUUID (snd y) = buildUUID (snd x)
      \<and> collectionUUID (snd y) = collectionUUID (snd x) \<and> dbName (snd y) = dbName (snd x))"

text \<open>
  The link between the by-id mapping and the collection trackers that registration
  establishes: every registered build is held by the tracker of its collection.
\<close>

definition everyBuildTracked :: "IndexBuildsCoordinator \<Rightarrow> bool" where
  "everyBuildTracked s =
     (\<forall>(bid, r) \<in> set (allIndexBuilds s).
        case map_of (collectionIndexBuilds s) (collectionUUID r) of
          None \<Rightarrow> False
        | Some t \<Rightarrow> bid \<in> set (buildStateByBuildUUID t))"

text \<open>The coordinator's state a call leaves behind, when the call returns.\<close>

definition stateAfter ::
  "(IndexBuildsCoordinator \<times> Event list) outcome \<Rightarrow> IndexBuildsCoordinator option" where
  "stateAfter r = (case r of Returned (s, evs) \<Rightarrow> Some s | _ \<Rightarrow> None)"

section \<open>Concrete builds and states\<close>

text \<open>
  Build 1 constructs index \<open>a_1\<close> on collection 10 of database \<open>test\<close>; build 2 asks for
  the same index name on the same collection.
\<close>

definition specA :: IndexSpec where
  "specA = \<lparr> specName = ''a_1'', specUnique = False, specKey = ''a'' \<rparr>"

definition build1 :: ReplIndexBuildState where
  "build1 = make_ReplIndexBuildState 1 10 ''test'' [specA] kTwoPhase None"

definition specB :: IndexSpec where
  "specB = \<lparr> specName = ''b_1'', specUnique = False, specKey = ''b'' \<rparr>"

definition build2 :: ReplIndexBuildState where
  "build2 = make_ReplIndexBuildState 2 10 ''test'' [specA] kTwoPhase None"

definition registered1 :: "ReplIndexBuildState \<Rightarrow> IndexBuildsCoordinator" where
  "registered1 replState =
     \<lparr> disallowedDbs = [], disallowedCollections = [],
       databaseIndexBuilds = [(''test'', Some \<lparr> dbAllIndexBuilds = [1] \<rparr>)],
       collectionIndexBuilds =
         [(10, \<lparr> buildStateByBuildUUID = [1], buildStateByIndexName = [(''a_1'', 1)] \<rparr>)],
       allIndexBuilds = [(1, replState)] \<rparr>"

definition build3 :: ReplIndexBuildState where
  "build3 = make_ReplIndexBuildState 3 10 ''test'' [specB] kTwoPhase None"

definition registered12 :: "ReplIndexBuildState \<Rightarrow> ReplIndexBuildState \<Rightarrow> IndexBuildsCoordinator" where
  "registered12 r1 r2 =
     \<lparr> disallowedDbs = [], disallowedCollections = [],
       databaseIndexBuilds = [(''test'', Some \<lparr> dbAllIndexBuilds = [1, 3] \<rparr>)],
       collectionIndexBuilds =
         [(10, \<lparr> buildStateByBuildUUID = [1, 3],
                 buildStateByIndexName = [(''a_1'', 1), (''b_1'', 3)] \<rparr>)],
       allIndexBuilds = [(1, r1), (3, r2)] \<rparr>"

definition replSecondary :: ReplicationCoordinator where
  "replSecondary = \<lparr> usingReplSets = True, canAcceptWritesFor = False \<rparr>"

definition replPrimary :: ReplicationCoordinator where
  "replPrimary = \<lparr> usingReplSets = True, canAcceptWritesFor = True \<rparr>"

definition phasesAllOK :: PhaseResults where
  "phasesAllOK =
     \<lparr> startBuildingIndex = OK, drainFirst = OK, drainSecond = OK, checkDbVersion = OK,
       drainThird = OK, checkIndexConstraintViolations = OK, managerCommitIndexBuild = OK \<rparr>"

text \<open>A server whose feature compatibility version is initialised and fully upgraded.\<close>

definition paramsUpgraded :: ServerParameters where
  "paramsUpgraded =
     \<lparr> enableTwoPhaseIndexBuild = True, isVersionInitialized = True, isFullyUpgradedTo44 = True \<rparr>"

definition catalogView :: "IndexSpec list \<Rightarrow> int \<Rightarrow> CollectionCatalogView" where
  "catalogView remaining n =
     \<lparr> addCollationDefaultsToIndexSpecsForCreate = Inr,
       removeExistingIndexes = (\<lambda>_. remaining),
       isSharded = False,
       isUniqueIndexCompatible = (\<lambda>_. True),
       numIndexesTotal = n \<rparr>"

section \<open>Unfolding and helper lemmas\<close>

lemmas example_defs =
  build1_def build2_def build3_def specA_def specB_def registered1_def registered12_def
  make_ReplIndexBuildState_def
  newReplIndexBuildState_def emptyCoordinator_def replSecondary_def replPrimary_def
  phasesAllOK_def paramsUpgraded_def catalogView_def

lemmas registry_defs =
  registerIndexBuild_def unregisterIndexBuild_def nameConflict_def conflictStatus_def
  hasIndexBuildState_def getIndexBuildState_def
  coll_addIndexBuild_def coll_removeIndexBuild_def coll_getNumberOfIndexBuilds_def
  db_addIndexBuild_def db_removeIndexBuild_def db_getNumberOfIndexBuilds_def
  emptyCollectionTracker_def emptyDatabaseTracker_def bind_outcome_def

lemmas signal_defs =
  getIndexBuild_def getIndexBuilds_def commitIndexBuild_def abortIndexBuildByBuildUUID_def
  joinIndexBuild_def onStepUp_def onRollback_def onStepUp_onIndexBuild_def
  onRollback_onIndexBuild_def isNull_def bind_outcome_def

lemma delete_appended_entry:
  "k \<notin> fst ` set al \<Longrightarrow> AList.delete k (al @ [(k, v)]) = al"
  by (induction al) auto

lemma nameConflict_not_OK: "nameConflict r s \<noteq> Returned (Some OK)"
  by (simp add: nameConflict_def conflictStatus_def Let_def split: option.splits)

text \<open>What a successful registration has done to the coordinator.\<close>

lemma registerIndexBuild_OK_state:
  assumes "registerIndexBuild r s = Returned (OK, s')"
  shows "map_of (allIndexBuilds s) (buildUUID r) = None
       \<and> s' = s\<lparr> databaseIndexBuilds :=
                    AList.update (dbName r)
                      (Some (db_addIndexBuild
                         (case map_of (databaseIndexBuilds s) (dbName r) of
                            Some (Some t) \<Rightarrow> t | _ \<Rightarrow> emptyDatabaseTracker) r))
                      (databaseIndexBuilds s),
                  collectionIndexBuilds :=
                    AList.update (collectionUUID r)
                      (coll_addIndexBuild
                         (case map_of (collectionIndexBuilds s) (collectionUUID r) of
                            Some t \<Rightarrow> t | None \<Rightarrow> emptyCollectionTracker) r)
                      (collectionIndexBuilds s),
                  allIndexBuilds := allIndexBuilds s @ [(buildUUID r, r)] \<rparr>"
  using assms nameConflict_not_OK [of r s]
  by (auto simp add: registerIndexBuild_def bind_outcome_def Let_def
      split: if_splits outcome.splits option.splits)

text \<open>
  A record that has just been registered can be unregistered: none of the three
  invariants of \<^verbatim>\<open>_unregisterIndexBuild\<close> fails, and the by-id mapping is as it was before
  the registration.
\<close>

lemma unregister_after_register:
  assumes "registerIndexBuild r s = Returned (OK, s1)"
  shows "\<exists>s2. unregisterIndexBuild r s1 = Returned s2
              \<and> allIndexBuilds s2 = allIndexBuilds s
              \<and> map_of (allIndexBuilds s2) (buildUUID r) = None"
proof -
  from registerIndexBuild_OK_state [OF assms]
  have nb: "map_of (allIndexBuilds s) (buildUUID r) = None"
    and s1: "s1 = s\<lparr> databaseIndexBuilds :=
                      AList.update (dbName r)
                        (Some (db_addIndexBuild
                           (case map_of (databaseIndexBuilds s) (dbName r) of
                              Some (Some t) \<Rightarrow> t | _ \<Rightarrow> emptyDatabaseTracker) r))
                        (databaseIndexBuilds s),
                    collectionIndexBuilds :=
                      AList.update (collectionUUID r)
                        (coll_addIndexBuild
                           (case map_of (collectionIndexBuilds s) (collectionUUID r) of
                              Some t \<Rightarrow> t | None \<Rightarrow> emptyCollectionTracker) r)
                        (collectionIndexBuilds s),
                    allIndexBuilds := allIndexBuilds s @ [(buildUUID r, r)] \<rparr>"
    by blast+
  from nb have notin: "buildUUID r \<notin> fst ` set (allIndexBuilds s)"
    by (simp add: map_of_eq_None_iff)
  then have del: "AList.delete (buildUUID r) (allIndexBuilds s @ [(buildUUID r, r)]) = allIndexBuilds s"
    by (rule delete_appended_entry)
  show ?thesis
    using nb del
    by (simp add: s1 unregisterIndexBuild_def Let_def AList.update_conv')
qed

text \<open>The two per-build callbacks, case by case, and their iteration over the registry.\<close>

lemma onStepUp_onIndexBuild_aborted:
  "aborted r \<Longrightarrow> onStepUp_onIndexBuild r = Returned (r, [])"
  by (simp add: onStepUp_onIndexBuild_def)

lemma onStepUp_onIndexBuild_fresh:
  "\<not> aborted r \<Longrightarrow> \<not> isCommitReady r \<Longrightarrow> isNull (commitTimestamp r) \<Longrightarrow>
   onStepUp_onIndexBuild r = Returned (r\<lparr>isCommitReady := True\<rparr>, [NotifyAll (buildUUID r)])"
  by (simp add: onStepUp_onIndexBuild_def)

lemma onStepUp_onIndexBuild_commit_ready:
  "\<not> aborted r \<Longrightarrow> isCommitReady r \<Longrightarrow> onStepUp_onIndexBuild r = InvariantFailure"
  by (simp add: onStepUp_onIndexBuild_def)

lemma onStepUp_onIndexBuild_cases:
  "onStepUp_onIndexBuild r = InvariantFailure \<or> (\<exists>x. onStepUp_onIndexBuild r = Returned x)"
  by (simp add: onStepUp_onIndexBuild_def)

lemma onRollback_onIndexBuild_aborted:
  "aborted r \<Longrightarrow> onRollback_onIndexBuild r = Returned (r, [])"
  by (simp add: onRollback_onIndexBuild_def)

lemma onRollback_onIndexBuild_fresh:
  "\<not> aborted r \<Longrightarrow> isNull (abortTimestamp r) \<Longrightarrow>
   onRollback_onIndexBuild r =
     Returned (r\<lparr>aborted := True, abortReason := ''rollback''\<rparr>, [NotifyAll (buildUUID r)])"
  by (simp add: onRollback_onIndexBuild_def)

lemma forEach_onStepUp:
  "\<forall>(k, r) \<in> set bs. aborted r \<or> (\<not> isCommitReady r \<and> isNull (commitTimestamp r)) \<Longrightarrow>
   forEachIndexBuild bs onStepUp_onIndexBuild =
     Returned (map (\<lambda>(k, r). (k, if aborted r then r else r\<lparr>isCommitReady := True\<rparr>)) bs,
               map (\<lambda>(k, r). NotifyAll (buildUUID r)) (filter (\<lambda>(k, r). \<not> aborted r) bs))"
  by (induction bs)
     (auto simp add: onStepUp_onIndexBuild_aborted onStepUp_onIndexBuild_fresh bind_outcome_def)

lemma forEach_onRollback:
  "\<forall>(k, r) \<in> set bs. aborted r \<or> (\<not> isCommitReady r \<and> isNull (abortTimestamp r)) \<Longrightarrow>
   forEachIndexBuild bs onRollback_onIndexBuild =
     Returned (map (\<lambda>(k, r). (k, if aborted r then r
                                 else r\<lparr>aborted := True, abortReason := ''rollback''\<rparr>)) bs,
               map (\<lambda>(k, r). NotifyAll (buildUUID r)) (filter (\<lambda>(k, r). \<not> aborted r) bs))"
  by (induction bs)
     (auto simp add: onRollback_onIndexBuild_aborted onRollback_onIndexBuild_fresh bind_outcome_def)

lemma forEach_onStepUp_commit_ready:
  "\<exists>(k, r) \<in> set bs. \<not> aborted r \<and> isCommitReady r \<Longrightarrow>
   forEachIndexBuild bs onStepUp_onIndexBuild = InvariantFailure"
proof (induction bs)
  case Nil
  then show ?case by simp
next
  case (Cons b bs)
  obtain k r where b: "b = (k, r)" by (cases b)
  show ?case
  proof (cases "\<not> aborted r \<and> isCommitReady r")
    case True
    then show ?thesis
      by (simp add: b onStepUp_onIndexBuild_commit_ready bind_outcome_def)
  next
    case False
    with Cons.prems b have "\<exists>(k, r) \<in> set bs. \<not> aborted r \<and> isCommitReady r" by auto
    then have rest: "forEachIndexBuild bs onStepUp_onIndexBuild = InvariantFailure"
      by (rule Cons.IH)
    from onStepUp_onIndexBuild_cases [of r] show ?thesis
      by (auto simp add: b rest bind_outcome_def)
  qed
qed

lemmas driver_defs =
  buildIndexTwoPhase_def scanAndFirstDrains_def scanCollectionAndInsertKeysIntoSorter_def
  insertKeysFromSideTablesWithoutBlockingWrites_def insertKeysFromSideTablesAndCommit_def
  IndexBuildsManager_commitIndexBuild_def onCommitIndexBuild_def onCreateEachFn_def
  supportsTwoPhaseIndexBuild_def isNull_def
  waitForCommitOrAbort_def shouldWaitForCommitOrAbort_def holdOrRethrow_def uassertStatusOK_def
  withContext_def isOK_def runIndexBuildInner_def cleanUpFailedIndexBuild_def bind_outcome_def

lemma scanAndFirstDrains_thrown_not_OK:
  "scanAndFirstDrains phases = Thrown ex \<Longrightarrow> ex \<noteq> OK"
  by (auto simp add: scanAndFirstDrains_def scanCollectionAndInsertKeysIntoSorter_def
      insertKeysFromSideTablesWithoutBlockingWrites_def uassertStatusOK_def isOK_def
      bind_outcome_def split: if_splits)

section \<open>The registry invariant\<close>

text \<open>
  The invariant, read through the lookups of the maps; registration and unregistration keep
  it, and so does every signal, blocker and abort operation that returns, with one
  exception: the abort of the builds of a database that has no tracker.
\<close>

lemma registryInvariant_map_of:
  "registryInvariant s =
     (distinct (map fst (allIndexBuilds s))
      \<and> distinct (map fst (collectionIndexBuilds s))
      \<and> distinct (map fst (databaseIndexBuilds s))
      \<and> (\<forall>bid r. map_of (allIndexBuilds s) bid = Some r \<longrightarrow> buildUUID r = bid)
      \<and> (\<forall>cid. case map_of (collectionIndexBuilds s) cid of
                   None \<Rightarrow> buildsOfCollection s cid = []
                 | Some t \<Rightarrow> buildStateByBuildUUID t = buildsOfCollection s cid
                            \<and> buildsOfCollection s cid \<noteq> [])
      \<and> (\<forall>db. case map_of (databaseIndexBuilds s) db of
                   None \<Rightarrow> buildsOfDatabase s db = []
                 | Some None \<Rightarrow> False
                 | Some (Some tr) \<Rightarrow> dbAllIndexBuilds tr = buildsOfDatabase s db
                            \<and> buildsOfDatabase s db \<noteq> []))"
  (is "?L = ?R")
proof
  assume L: ?L
  then have d: "distinct (map fst (allIndexBuilds s))"
    and dc: "distinct (map fst (collectionIndexBuilds s))"
    and dd: "distinct (map fst (databaseIndexBuilds s))"
    by (simp_all add: registryInvariant_def)
  have a: "\<forall>bid r. map_of (allIndexBuilds s) bid = Some r \<longrightarrow> buildUUID r = bid"
    using L by (auto simp add: registryInvariant_def dest!: map_of_SomeD)
  have c: "\<forall>cid. case map_of (collectionIndexBuilds s) cid of
                   None \<Rightarrow> buildsOfCollection s cid = []
                 | Some t \<Rightarrow> buildStateByBuildUUID t = buildsOfCollection s cid
                            \<and> buildsOfCollection s cid \<noteq> []"
  proof
    fix cid
    show "case map_of (collectionIndexBuilds s) cid of
                   None \<Rightarrow> buildsOfCollection s cid = []
                 | Some t \<Rightarrow> buildStateByBuildUUID t = buildsOfCollection s cid
                            \<and> buildsOfCollection s cid \<noteq> []"
    proof (cases "map_of (collectionIndexBuilds s) cid")
      case None
      have "buildsOfCollection s cid = []"
      proof (rule ccontr)
        assume "buildsOfCollection s cid \<noteq> []"
        then obtain bid r where "(bid, r) \<in> set (allIndexBuilds s)" "collectionUUID r = cid"
          by (auto simp add: buildsOfCollection_def filter_empty_conv)
        with L None show False by (auto simp add: registryInvariant_def)
      qed
      with None show ?thesis by simp
    next
      case (Some t)
      then have "(cid, t) \<in> set (collectionIndexBuilds s)" by (rule map_of_SomeD)
      with L Some show ?thesis by (auto simp add: registryInvariant_def)
    qed
  qed
  have b: "\<forall>db. case map_of (databaseIndexBuilds s) db of
                   None \<Rightarrow> buildsOfDatabase s db = []
                 | Some None \<Rightarrow> False
                 | Some (Some tr) \<Rightarrow> dbAllIndexBuilds tr = buildsOfDatabase s db
                            \<and> buildsOfDatabase s db \<noteq> []"
  proof
    fix db
    show "case map_of (databaseIndexBuilds s) db of
                   None \<Rightarrow> buildsOfDatabase s db = []
                 | Some None \<Rightarrow> False
                 | Some (Some tr) \<Rightarrow> dbAllIndexBuilds tr = buildsOfDatabase s db
                            \<and> buildsOfDatabase s db \<noteq> []"
    proof (cases "map_of (databaseIndexBuilds s) db")
      case None
      have "buildsOfDatabase s db = []"
      proof (rule ccontr)
        assume "buildsOfDatabase s db \<noteq> []"
        then obtain bid r where "(bid, r) \<in> set (allIndexBuilds s)" "dbName r = db"
          by (auto simp add: buildsOfDatabase_def filter_empty_conv)
        with L None show False by (auto simp add: registryInvariant_def)
      qed
      with None show ?thesis by simp
    next
      case (Some t)
      then have "(db, t) \<in> set (databaseIndexBuilds s)" by (rule map_of_SomeD)
      with L Some show ?thesis by (auto simp add: registryInvariant_def split: option.splits)
    qed
  qed
  from d dc dd a c b show ?R by blast
next
  assume R: ?R
  then have d: "distinct (map fst (allIndexBuilds s))"
    and dc: "distinct (map fst (collectionIndexBuilds s))"
    and dd: "distinct (map fst (databaseIndexBuilds s))"
    and a: "\<And>bid r. map_of (allIndexBuilds s) bid = Some r \<Longrightarrow> buildUUID r = bid"
    and c: "\<And>cid. case map_of (collectionIndexBuilds s) cid of
                   None \<Rightarrow> buildsOfCollection s cid = []
                 | Some t \<Rightarrow> buildStateByBuildUUID t = buildsOfCollection s cid
                            \<and> buildsOfCollection s cid \<noteq> []"
    and b: "\<And>db. case map_of (databaseIndexBuilds s) db of
                   None \<Rightarrow> buildsOfDatabase s db = []
                 | Some None \<Rightarrow> False
                 | Some (Some tr) \<Rightarrow> dbAllIndexBuilds tr = buildsOfDatabase s db
                            \<and> buildsOfDatabase s db \<noteq> []"
    by blast+
  have p1: "\<forall>(bid, r) \<in> set (allIndexBuilds s).
            buildUUID r = bid
            \<and> map_of (collectionIndexBuilds s) (collectionUUID r) \<noteq> None
            \<and> map_of (databaseIndexBuilds s) (dbName r) \<noteq> None"
  proof (clarify, intro conjI)
    fix bid r assume m: "(bid, r) \<in> set (allIndexBuilds s)"
    with d have "map_of (allIndexBuilds s) bid = Some r" by simp
    then show "buildUUID r = bid" by (rule a)
    from m have "bid \<in> set (buildsOfCollection s (collectionUUID r))"
      by (force simp add: buildsOfCollection_def)
    with c [of "collectionUUID r"] show "map_of (collectionIndexBuilds s) (collectionUUID r) \<noteq> None"
      by (auto split: option.splits)
    from m have "bid \<in> set (buildsOfDatabase s (dbName r))"
      by (force simp add: buildsOfDatabase_def)
    with b [of "dbName r"] show "map_of (databaseIndexBuilds s) (dbName r) \<noteq> None"
      by (auto split: option.splits)
  qed
  have p2: "\<forall>(cid, t) \<in> set (collectionIndexBuilds s).
            buildStateByBuildUUID t = buildsOfCollection s cid \<and> buildStateByBuildUUID t \<noteq> []"
  proof clarify
    fix cid t assume "(cid, t) \<in> set (collectionIndexBuilds s)"
    with dc have "map_of (collectionIndexBuilds s) cid = Some t" by simp
    with c [of cid]
    show "buildStateByBuildUUID t = buildsOfCollection s cid \<and> buildStateByBuildUUID t \<noteq> []"
      by simp
  qed
  have p3: "\<forall>(db, t) \<in> set (databaseIndexBuilds s).
            case t of
              None \<Rightarrow> False
            | Some tr \<Rightarrow> dbAllIndexBuilds tr = buildsOfDatabase s db \<and> dbAllIndexBuilds tr \<noteq> []"
  proof clarify
    fix db t assume "(db, t) \<in> set (databaseIndexBuilds s)"
    with dd have "map_of (databaseIndexBuilds s) db = Some t" by simp
    with b [of db]
    show "case t of
              None \<Rightarrow> False
            | Some tr \<Rightarrow> dbAllIndexBuilds tr = buildsOfDatabase s db \<and> dbAllIndexBuilds tr \<noteq> []"
      by (auto split: option.splits)
  qed
  from d dc dd p1 p2 p3 show ?L by (simp add: registryInvariant_def)
qed


lemma keys_delete_filter:
  "map fst (filter P (AList.delete k al)) = removeAll k (map fst (filter P al))"
  by (induction al) auto

lemma buildsOfCollection_append:
  "allIndexBuilds s' = allIndexBuilds s @ [(bid, r)] \<Longrightarrow>
   buildsOfCollection s' cid
     = buildsOfCollection s cid @ (if collectionUUID r = cid then [bid] else [])"
  by (simp add: buildsOfCollection_def)

lemma buildsOfDatabase_append:
  "allIndexBuilds s' = allIndexBuilds s @ [(bid, r)] \<Longrightarrow>
   buildsOfDatabase s' db = buildsOfDatabase s db @ (if dbName r = db then [bid] else [])"
  by (simp add: buildsOfDatabase_def)

lemma buildsOfCollection_delete:
  "allIndexBuilds s' = AList.delete bid (allIndexBuilds s) \<Longrightarrow>
   buildsOfCollection s' cid = removeAll bid (buildsOfCollection s cid)"
  by (simp add: buildsOfCollection_def keys_delete_filter)

lemma buildsOfDatabase_delete:
  "allIndexBuilds s' = AList.delete bid (allIndexBuilds s) \<Longrightarrow>
   buildsOfDatabase s' db = removeAll bid (buildsOfDatabase s db)"
  by (simp add: buildsOfDatabase_def keys_delete_filter)

lemma registerIndexBuild_preserves_registryInvariant:
  assumes reg: "registerIndexBuild r s = Returned (OK, s')"
    and inv: "registryInvariant s"
  shows "registryInvariant s'"
proof -
  let ?bid = "buildUUID r" and ?cid = "collectionUUID r" and ?db = "dbName r"
  from registerIndexBuild_OK_state [OF reg]
  have fresh: "map_of (allIndexBuilds s) ?bid = None"
    and all': "allIndexBuilds s' = allIndexBuilds s @ [(?bid, r)]"
    and colls': "collectionIndexBuilds s' =
        AList.update ?cid
          (coll_addIndexBuild
             (case map_of (collectionIndexBuilds s) ?cid of
                Some t \<Rightarrow> t | None \<Rightarrow> emptyCollectionTracker) r)
          (collectionIndexBuilds s)"
    and dbs': "databaseIndexBuilds s' =
        AList.update ?db
          (Some (db_addIndexBuild
             (case map_of (databaseIndexBuilds s) ?db of
                Some (Some t) \<Rightarrow> t | _ \<Rightarrow> emptyDatabaseTracker) r))
          (databaseIndexBuilds s)"
    by auto
  from inv have d: "distinct (map fst (allIndexBuilds s))"
    and dc: "distinct (map fst (collectionIndexBuilds s))"
    and dd: "distinct (map fst (databaseIndexBuilds s))"
    and a: "\<And>bid x. map_of (allIndexBuilds s) bid = Some x \<Longrightarrow> buildUUID x = bid"
    and c: "\<And>cid. case map_of (collectionIndexBuilds s) cid of
                   None \<Rightarrow> buildsOfCollection s cid = []
                 | Some t \<Rightarrow> buildStateByBuildUUID t = buildsOfCollection s cid
                            \<and> buildsOfCollection s cid \<noteq> []"
    and b: "\<And>db. case map_of (databaseIndexBuilds s) db of
                   None \<Rightarrow> buildsOfDatabase s db = []
                 | Some None \<Rightarrow> False
                 | Some (Some tr) \<Rightarrow> dbAllIndexBuilds tr = buildsOfDatabase s db
                            \<and> buildsOfDatabase s db \<noteq> []"
    unfolding registryInvariant_map_of by blast+
  from fresh have notin: "?bid \<notin> fst ` set (allIndexBuilds s)"
    by (simp add: map_of_eq_None_iff)
  have d': "distinct (map fst (allIndexBuilds s'))"
    using d notin by (simp add: all')
  have dc': "distinct (map fst (collectionIndexBuilds s'))"
    using dc by (simp add: colls' AList.distinct_update)
  have dd': "distinct (map fst (databaseIndexBuilds s'))"
    using dd by (simp add: dbs' AList.distinct_update)
  have a': "\<forall>bid x. map_of (allIndexBuilds s') bid = Some x \<longrightarrow> buildUUID x = bid"
    using a by (auto simp add: all' map_add_Some_iff split: if_splits)
  have c': "\<forall>cid. case map_of (collectionIndexBuilds s') cid of
                   None \<Rightarrow> buildsOfCollection s' cid = []
                 | Some t \<Rightarrow> buildStateByBuildUUID t = buildsOfCollection s' cid
                            \<and> buildsOfCollection s' cid \<noteq> []"
  proof
    fix cid
    show "case map_of (collectionIndexBuilds s') cid of
                   None \<Rightarrow> buildsOfCollection s' cid = []
                 | Some t \<Rightarrow> buildStateByBuildUUID t = buildsOfCollection s' cid
                            \<and> buildsOfCollection s' cid \<noteq> []"
      using c [of cid]
      by (auto simp add: colls' AList.update_conv' buildsOfCollection_append [OF all']
          coll_addIndexBuild_def emptyCollectionTracker_def split: option.splits)
  qed
  have b': "\<forall>db. case map_of (databaseIndexBuilds s') db of
                   None \<Rightarrow> buildsOfDatabase s' db = []
                 | Some None \<Rightarrow> False
                 | Some (Some tr) \<Rightarrow> dbAllIndexBuilds tr = buildsOfDatabase s' db
                            \<and> buildsOfDatabase s' db \<noteq> []"
  proof
    fix db
    show "case map_of (databaseIndexBuilds s') db of
                   None \<Rightarrow> buildsOfDatabase s' db = []
                 | Some None \<Rightarrow> False
                 | Some (Some tr) \<Rightarrow> dbAllIndexBuilds tr = buildsOfDatabase s' db
                            \<and> buildsOfDatabase s' db \<noteq> []"
      using b [of db]
      by (auto simp add: dbs' AList.update_conv' buildsOfDatabase_append [OF all']
          db_addIndexBuild_def emptyDatabaseTracker_def split: option.splits)
  qed
  from d' dc' dd' a' c' b' show ?thesis
    unfolding registryInvariant_map_of by blast
qed


lemma unregisterIndexBuild_state:
  assumes "unregisterIndexBuild r s = Returned s'"
  shows "\<exists>dbt ct.
           map_of (databaseIndexBuilds s) (dbName r) = Some (Some dbt)
         \<and> map_of (collectionIndexBuilds s) (collectionUUID r) = Some ct
         \<and> allIndexBuilds s' = AList.delete (buildUUID r) (allIndexBuilds s)
         \<and> databaseIndexBuilds s' =
             (if removeAll (buildUUID r) (dbAllIndexBuilds dbt) = []
              then AList.delete (dbName r) (databaseIndexBuilds s)
              else AList.update (dbName r)
                     (Some (dbt\<lparr>dbAllIndexBuilds := removeAll (buildUUID r) (dbAllIndexBuilds dbt)\<rparr>))
                     (databaseIndexBuilds s))
         \<and> collectionIndexBuilds s' =
             (if removeAll (buildUUID r) (buildStateByBuildUUID ct) = []
              then AList.delete (collectionUUID r) (collectionIndexBuilds s)
              else AList.update (collectionUUID r) (coll_removeIndexBuild ct r)
                     (collectionIndexBuilds s))"
proof -
  from assms obtain dbt where dbt: "map_of (databaseIndexBuilds s) (dbName r) = Some (Some dbt)"
    by (auto simp add: unregisterIndexBuild_def split: option.splits)
  from assms dbt obtain ct where ct: "map_of (collectionIndexBuilds s) (collectionUUID r) = Some ct"
    by (auto simp add: unregisterIndexBuild_def Let_def split: option.splits)
  from assms dbt ct
  have "allIndexBuilds s' = AList.delete (buildUUID r) (allIndexBuilds s)
         \<and> databaseIndexBuilds s' =
             (if removeAll (buildUUID r) (dbAllIndexBuilds dbt) = []
              then AList.delete (dbName r) (databaseIndexBuilds s)
              else AList.update (dbName r)
                     (Some (dbt\<lparr>dbAllIndexBuilds := removeAll (buildUUID r) (dbAllIndexBuilds dbt)\<rparr>))
                     (databaseIndexBuilds s))
         \<and> collectionIndexBuilds s' =
             (if removeAll (buildUUID r) (buildStateByBuildUUID ct) = []
              then AList.delete (collectionUUID r) (collectionIndexBuilds s)
              else AList.update (collectionUUID r) (coll_removeIndexBuild ct r)
                     (collectionIndexBuilds s))"
    by (auto simp add: unregisterIndexBuild_def Let_def db_removeIndexBuild_def
        db_getNumberOfIndexBuilds_def coll_removeIndexBuild_def coll_getNumberOfIndexBuilds_def
        split: if_splits)
  with dbt ct show ?thesis by blast
qed

lemma registered_elsewhere:
  assumes "distinct (map fst al)" and "map_of al k = Some v"
  shows "k \<notin> set (map fst (filter (\<lambda>(k', v'). f v' \<noteq> f v) al))"
proof
  assume "k \<in> set (map fst (filter (\<lambda>(k', v'). f v' \<noteq> f v) al))"
  then obtain v' where m: "(k, v') \<in> set al" and ne: "f v' \<noteq> f v" by auto
  from assms(1) m have "map_of al k = Some v'" by simp
  with assms(2) ne show False by simp
qed

lemma unregisterIndexBuild_preserves_registryInvariant:
  assumes un: "unregisterIndexBuild r s = Returned s'"
    and inv: "registryInvariant s"
    and held: "map_of (allIndexBuilds s) (buildUUID r) = Some r"
  shows "registryInvariant s'"
proof -
  let ?bid = "buildUUID r" and ?cid = "collectionUUID r" and ?db = "dbName r"
  from unregisterIndexBuild_state [OF un] obtain dbt ct where
    dbt: "map_of (databaseIndexBuilds s) ?db = Some (Some dbt)"
    and ct: "map_of (collectionIndexBuilds s) ?cid = Some ct"
    and all': "allIndexBuilds s' = AList.delete ?bid (allIndexBuilds s)"
    and dbs': "databaseIndexBuilds s' =
             (if removeAll ?bid (dbAllIndexBuilds dbt) = []
              then AList.delete ?db (databaseIndexBuilds s)
              else AList.update ?db
                     (Some (dbt\<lparr>dbAllIndexBuilds := removeAll ?bid (dbAllIndexBuilds dbt)\<rparr>))
                     (databaseIndexBuilds s))"
    and colls': "collectionIndexBuilds s' =
             (if removeAll ?bid (buildStateByBuildUUID ct) = []
              then AList.delete ?cid (collectionIndexBuilds s)
              else AList.update ?cid (coll_removeIndexBuild ct r) (collectionIndexBuilds s))"
    by blast
  from inv have d: "distinct (map fst (allIndexBuilds s))"
    and dc: "distinct (map fst (collectionIndexBuilds s))"
    and dd: "distinct (map fst (databaseIndexBuilds s))"
    and a: "\<And>bid x. map_of (allIndexBuilds s) bid = Some x \<Longrightarrow> buildUUID x = bid"
    and c: "\<And>cid. case map_of (collectionIndexBuilds s) cid of
                   None \<Rightarrow> buildsOfCollection s cid = []
                 | Some t \<Rightarrow> buildStateByBuildUUID t = buildsOfCollection s cid
                            \<and> buildsOfCollection s cid \<noteq> []"
    and b: "\<And>db. case map_of (databaseIndexBuilds s) db of
                   None \<Rightarrow> buildsOfDatabase s db = []
                 | Some None \<Rightarrow> False
                 | Some (Some tr) \<Rightarrow> dbAllIndexBuilds tr = buildsOfDatabase s db
                            \<and> buildsOfDatabase s db \<noteq> []"
    unfolding registryInvariant_map_of by blast+
  have d': "distinct (map fst (allIndexBuilds s'))"
    using d by (simp add: all' AList.distinct_delete)
  have dc': "distinct (map fst (collectionIndexBuilds s'))"
    using dc by (simp add: colls' AList.distinct_update AList.distinct_delete)
  have dd': "distinct (map fst (databaseIndexBuilds s'))"
    using dd by (simp add: dbs' AList.distinct_update AList.distinct_delete)
  have a': "\<forall>bid x. map_of (allIndexBuilds s') bid = Some x \<longrightarrow> buildUUID x = bid"
    using a by (auto simp add: all' AList.delete_conv' split: if_splits)
  have other_c: "\<And>cid. cid \<noteq> ?cid \<Longrightarrow> ?bid \<notin> set (buildsOfCollection s cid)"
  proof -
    fix cid assume ne: "cid \<noteq> ?cid"
    from registered_elsewhere [OF d held, of collectionUUID]
    have "?bid \<notin> set (map fst (filter (\<lambda>(k', v'). collectionUUID v' \<noteq> ?cid) (allIndexBuilds s)))" .
    with ne show "?bid \<notin> set (buildsOfCollection s cid)"
      by (auto simp add: buildsOfCollection_def)
  qed
  have other_d: "\<And>db. db \<noteq> ?db \<Longrightarrow> ?bid \<notin> set (buildsOfDatabase s db)"
  proof -
    fix db assume ne: "db \<noteq> ?db"
    from registered_elsewhere [OF d held, of dbName]
    have "?bid \<notin> set (map fst (filter (\<lambda>(k', v'). dbName v' \<noteq> ?db) (allIndexBuilds s)))" .
    with ne show "?bid \<notin> set (buildsOfDatabase s db)"
      by (auto simp add: buildsOfDatabase_def)
  qed
  have c': "\<forall>cid. case map_of (collectionIndexBuilds s') cid of
                   None \<Rightarrow> buildsOfCollection s' cid = []
                 | Some t \<Rightarrow> buildStateByBuildUUID t = buildsOfCollection s' cid
                            \<and> buildsOfCollection s' cid \<noteq> []"
  proof
    fix cid
    show "case map_of (collectionIndexBuilds s') cid of
                   None \<Rightarrow> buildsOfCollection s' cid = []
                 | Some t \<Rightarrow> buildStateByBuildUUID t = buildsOfCollection s' cid
                            \<and> buildsOfCollection s' cid \<noteq> []"
    proof (cases "cid = ?cid")
      case True
      from c [of ?cid] ct have "buildStateByBuildUUID ct = buildsOfCollection s ?cid" by simp
      then show ?thesis
        using True
        by (simp add: colls' AList.update_conv' AList.delete_conv'
            buildsOfCollection_delete [OF all'] coll_removeIndexBuild_def)
    next
      case False
      with other_c have "removeAll ?bid (buildsOfCollection s cid) = buildsOfCollection s cid"
        by (simp add: removeAll_id)
      then show ?thesis
        using False c [of cid]
        by (auto simp add: colls' AList.update_conv' AList.delete_conv'
            buildsOfCollection_delete [OF all'] split: option.splits)
    qed
  qed
  have b': "\<forall>db. case map_of (databaseIndexBuilds s') db of
                   None \<Rightarrow> buildsOfDatabase s' db = []
                 | Some None \<Rightarrow> False
                 | Some (Some tr) \<Rightarrow> dbAllIndexBuilds tr = buildsOfDatabase s' db
                            \<and> buildsOfDatabase s' db \<noteq> []"
  proof
    fix db
    show "case map_of (databaseIndexBuilds s') db of
                   None \<Rightarrow> buildsOfDatabase s' db = []
                 | Some None \<Rightarrow> False
                 | Some (Some tr) \<Rightarrow> dbAllIndexBuilds tr = buildsOfDatabase s' db
                            \<and> buildsOfDatabase s' db \<noteq> []"
    proof (cases "db = ?db")
      case True
      from b [of ?db] dbt have "dbAllIndexBuilds dbt = buildsOfDatabase s ?db" by simp
      then show ?thesis
        using True
        by (simp add: dbs' AList.update_conv' AList.delete_conv'
            buildsOfDatabase_delete [OF all'])
    next
      case False
      with other_d have "removeAll ?bid (buildsOfDatabase s db) = buildsOfDatabase s db"
        by (simp add: removeAll_id)
      then show ?thesis
        using False b [of db]
        by (auto simp add: dbs' AList.update_conv' AList.delete_conv'
            buildsOfDatabase_delete [OF all'] split: option.splits)
    qed
  qed
  from d' dc' dd' a' c' b' show ?thesis
    unfolding registryInvariant_map_of by blast
qed


lemma sameBuild_refl: "list_all2 sameBuild al al"
  by (simp add: list_all2_refl sameBuild_def)

lemma sameBuild_trans:
  assumes "list_all2 sameBuild al al'" and "list_all2 sameBuild al' al''"
  shows "list_all2 sameBuild al al''"
  by (rule list_all2_trans [OF _ assms]) (auto simp add: sameBuild_def)

lemma sameBuild_keys: "list_all2 sameBuild al al' \<Longrightarrow> map fst al' = map fst al"
proof (induction rule: list_all2_induct)
  case Nil
  then show ?case by simp
next
  case (Cons x xs y ys)
  from Cons.hyps(1) have "fst y = fst x" by (simp add: sameBuild_def)
  with Cons.IH show ?case by simp
qed

lemma sameBuild_collection:
  "list_all2 sameBuild al al' \<Longrightarrow>
   map fst (filter (\<lambda>(bid, r). collectionUUID r = cid) al')
     = map fst (filter (\<lambda>(bid, r). collectionUUID r = cid) al)"
  by (induction rule: list_all2_induct) (auto simp add: sameBuild_def)

lemma sameBuild_database:
  "list_all2 sameBuild al al' \<Longrightarrow>
   map fst (filter (\<lambda>(bid, r). dbName r = db) al')
     = map fst (filter (\<lambda>(bid, r). dbName r = db) al)"
  by (induction rule: list_all2_induct) (auto simp add: sameBuild_def)

lemma sameBuild_buildUUID:
  "list_all2 sameBuild al al' \<Longrightarrow> \<forall>(bid, r) \<in> set al. buildUUID r = bid \<Longrightarrow>
   \<forall>(bid, r) \<in> set al'. buildUUID r = bid"
  by (induction rule: list_all2_induct) (auto simp add: sameBuild_def)

lemma sameBuild_tracked:
  "list_all2 sameBuild al al' \<Longrightarrow> \<forall>(bid, r) \<in> set al. P (collectionUUID r) (dbName r) \<Longrightarrow>
   \<forall>(bid, r) \<in> set al'. P (collectionUUID r) (dbName r)"
  by (induction rule: list_all2_induct) (auto simp add: sameBuild_def)

lemma registryInvariant_sameBuilds:
  assumes inv: "registryInvariant s"
    and same: "list_all2 sameBuild (allIndexBuilds s) (allIndexBuilds s')"
    and colls: "collectionIndexBuilds s' = collectionIndexBuilds s"
    and dbs: "databaseIndexBuilds s' = databaseIndexBuilds s"
  shows "registryInvariant s'"
proof -
  have bc: "\<And>cid. buildsOfCollection s' cid = buildsOfCollection s cid"
    using sameBuild_collection [OF same] by (simp add: buildsOfCollection_def)
  have bd: "\<And>db. buildsOfDatabase s' db = buildsOfDatabase s db"
    using sameBuild_database [OF same] by (simp add: buildsOfDatabase_def)
  from inv have p: "\<forall>(bid, r) \<in> set (allIndexBuilds s). buildUUID r = bid"
    by (auto simp add: registryInvariant_def)
  from inv have d: "distinct (map fst (allIndexBuilds s))"
    and dc: "distinct (map fst (collectionIndexBuilds s))"
    and dd: "distinct (map fst (databaseIndexBuilds s))"
    and c: "\<And>cid. case map_of (collectionIndexBuilds s) cid of
                   None \<Rightarrow> buildsOfCollection s cid = []
                 | Some t \<Rightarrow> buildStateByBuildUUID t = buildsOfCollection s cid
                            \<and> buildsOfCollection s cid \<noteq> []"
    and b: "\<And>db. case map_of (databaseIndexBuilds s) db of
                   None \<Rightarrow> buildsOfDatabase s db = []
                 | Some None \<Rightarrow> False
                 | Some (Some tr) \<Rightarrow> dbAllIndexBuilds tr = buildsOfDatabase s db
                            \<and> buildsOfDatabase s db \<noteq> []"
    unfolding registryInvariant_map_of by blast+
  have d': "distinct (map fst (allIndexBuilds s'))"
    using d by (simp add: sameBuild_keys [OF same])
  from sameBuild_buildUUID [OF same p]
  have a': "\<forall>bid r. map_of (allIndexBuilds s') bid = Some r \<longrightarrow> buildUUID r = bid"
    by (auto dest!: map_of_SomeD)
  have c': "\<forall>cid. case map_of (collectionIndexBuilds s') cid of
                   None \<Rightarrow> buildsOfCollection s' cid = []
                 | Some t \<Rightarrow> buildStateByBuildUUID t = buildsOfCollection s' cid
                            \<and> buildsOfCollection s' cid \<noteq> []"
  proof
    fix cid
    from c [of cid]
    show "case map_of (collectionIndexBuilds s') cid of
                   None \<Rightarrow> buildsOfCollection s' cid = []
                 | Some t \<Rightarrow> buildStateByBuildUUID t = buildsOfCollection s' cid
                            \<and> buildsOfCollection s' cid \<noteq> []"
      by (auto simp add: colls bc split: option.splits)
  qed
  have b': "\<forall>db. case map_of (databaseIndexBuilds s') db of
                   None \<Rightarrow> buildsOfDatabase s' db = []
                 | Some None \<Rightarrow> False
                 | Some (Some tr) \<Rightarrow> dbAllIndexBuilds tr = buildsOfDatabase s' db
                            \<and> buildsOfDatabase s' db \<noteq> []"
  proof
    fix db
    from b [of db]
    show "case map_of (databaseIndexBuilds s') db of
                   None \<Rightarrow> buildsOfDatabase s' db = []
                 | Some None \<Rightarrow> False
                 | Some (Some tr) \<Rightarrow> dbAllIndexBuilds tr = buildsOfDatabase s' db
                            \<and> buildsOfDatabase s' db \<noteq> []"
      by (auto simp add: dbs bd split: option.splits)
  qed
  from d' dc dd a' c' b' show ?thesis
    unfolding registryInvariant_map_of by (simp add: colls dbs)
qed

lemma update_sameBuild:
  "map_of al k = Some v \<Longrightarrow> buildUUID v' = buildUUID v \<Longrightarrow>
   collectionUUID v' = collectionUUID v \<Longrightarrow> dbName v' = dbName v \<Longrightarrow>
   list_all2 sameBuild al (AList.update k v' al)"
proof (induction al)
  case Nil
  then show ?case by simp
next
  case (Cons a al)
  then show ?case
    by (cases a) (auto simp add: sameBuild_def list_all2_refl split: if_splits)
qed

lemma forEachIndexBuild_sameBuild:
  assumes "\<And>r r' evs. f r = Returned (r', evs) \<Longrightarrow>
             buildUUID r' = buildUUID r \<and> collectionUUID r' = collectionUUID r
             \<and> dbName r' = dbName r"
  shows "forEachIndexBuild al f = Returned (al', evs) \<Longrightarrow> list_all2 sameBuild al al'"
proof (induction al arbitrary: al' evs)
  case Nil
  then show ?case by simp
next
  case (Cons a al)
  obtain k r where a: "a = (k, r)" by (cases a)
  from Cons.prems a obtain r' e rest e' where
    fr: "f r = Returned (r', e)"
    and rest: "forEachIndexBuild al f = Returned (rest, e')"
    and al': "al' = (k, r') # rest"
    by (auto simp add: bind_outcome_def split: outcome.splits)
  from Cons.IH [OF rest] assms [OF fr] show ?case
    by (simp add: a al' sameBuild_def)
qed

lemma runOperationOnAllBuilds_sameBuild:
  "runOperationOnAllBuilds hs managerAborts reason al = Returned (al', evs) \<Longrightarrow>
   list_all2 sameBuild al al'"
proof (induction hs arbitrary: al al' evs)
  case Nil
  then show ?case by (simp add: sameBuild_refl)
next
  case (Cons h hs)
  from Cons.prems obtain r where r: "map_of al h = Some r"
    by (auto split: option.splits)
  obtain r' e where ab: "abortIndexBuild managerAborts r reason = (r', e)"
    by (cases "abortIndexBuild managerAborts r reason")
  from ab have fields: "buildUUID r' = buildUUID r" "collectionUUID r' = collectionUUID r"
    "dbName r' = dbName r"
    by (auto simp add: abortIndexBuild_def split: if_splits)
  from Cons.prems r ab obtain e' where
    rest: "runOperationOnAllBuilds hs managerAborts reason (AList.update h r' al) = Returned (al', e')"
    by (auto simp add: bind_outcome_def split: outcome.splits)
  from update_sameBuild [OF r fields] Cons.IH [OF rest] show ?case
    by (rule sameBuild_trans)
qed

text \<open>Each operation that returns keeps the registry invariant.\<close>

lemma commitIndexBuild_preserves_registryInvariant:
  assumes "commitIndexBuild ts specs bid s = Returned (s', evs)" and "registryInvariant s"
  shows "registryInvariant s'"
proof -
  from assms(1) obtain r where r: "map_of (allIndexBuilds s) bid = Some r"
    and s': "s' = s\<lparr>allIndexBuilds :=
                    AList.update bid (r\<lparr>isCommitReady := True, commitTimestamp := ts\<rparr>)
                      (allIndexBuilds s)\<rparr>"
    by (auto simp add: commitIndexBuild_def getIndexBuild_def Let_def
        split: option.splits if_splits)
  from update_sameBuild [OF r, of "r\<lparr>isCommitReady := True, commitTimestamp := ts\<rparr>"]
  have "list_all2 sameBuild (allIndexBuilds s) (allIndexBuilds s')" by (simp add: s')
  with assms(2) show ?thesis by (rule registryInvariant_sameBuilds) (simp_all add: s')
qed

lemma abortIndexBuildByBuildUUID_preserves_registryInvariant:
  assumes "abortIndexBuildByBuildUUID ts bid reason s = Returned (s', evs)"
    and "registryInvariant s"
  shows "registryInvariant s'"
proof (cases "map_of (allIndexBuilds s) bid")
  case None
  with assms show ?thesis
    by (simp add: abortIndexBuildByBuildUUID_def getIndexBuild_def)
next
  case (Some r)
  with assms(1) have s': "s' = s\<lparr>allIndexBuilds :=
        AList.update bid (r\<lparr>aborted := True, abortTimestamp := ts, abortReason := reason\<rparr>)
          (allIndexBuilds s)\<rparr>"
    by (simp add: abortIndexBuildByBuildUUID_def getIndexBuild_def Let_def)
  from update_sameBuild
         [OF Some, of "r\<lparr>aborted := True, abortTimestamp := ts, abortReason := reason\<rparr>"]
  have "list_all2 sameBuild (allIndexBuilds s) (allIndexBuilds s')" by (simp add: s')
  with assms(2) show ?thesis by (rule registryInvariant_sameBuilds) (simp_all add: s')
qed

lemma onStepUp_preserves_registryInvariant:
  assumes "onStepUp s = Returned (s', evs)" and "registryInvariant s"
  shows "registryInvariant s'"
proof -
  from assms(1) obtain builds where
    fe: "forEachIndexBuild (allIndexBuilds s) onStepUp_onIndexBuild = Returned (builds, evs)"
    and s': "s' = s\<lparr>allIndexBuilds := builds\<rparr>"
    by (auto simp add: onStepUp_def bind_outcome_def split: outcome.splits)
  have "list_all2 sameBuild (allIndexBuilds s) builds"
    by (rule forEachIndexBuild_sameBuild [OF _ fe])
       (auto simp add: onStepUp_onIndexBuild_def split: if_splits)
  then have "list_all2 sameBuild (allIndexBuilds s) (allIndexBuilds s')" by (simp add: s')
  with assms(2) show ?thesis by (rule registryInvariant_sameBuilds) (simp_all add: s')
qed

lemma onRollback_preserves_registryInvariant:
  assumes "onRollback s = Returned (s', evs)" and "registryInvariant s"
  shows "registryInvariant s'"
proof -
  from assms(1) obtain builds where
    fe: "forEachIndexBuild (allIndexBuilds s) onRollback_onIndexBuild = Returned (builds, evs)"
    and s': "s' = s\<lparr>allIndexBuilds := builds\<rparr>"
    by (auto simp add: onRollback_def bind_outcome_def split: outcome.splits)
  have "list_all2 sameBuild (allIndexBuilds s) builds"
    by (rule forEachIndexBuild_sameBuild [OF _ fe])
       (auto simp add: onRollback_onIndexBuild_def split: if_splits)
  then have "list_all2 sameBuild (allIndexBuilds s) (allIndexBuilds s')" by (simp add: s')
  with assms(2) show ?thesis by (rule registryInvariant_sameBuilds) (simp_all add: s')
qed

text \<open>
  The wait of the two abort operations: each driver that ends meanwhile unregisters its
  record, which keeps the invariant, and the caller returns with the tracker empty.
\<close>

lemma waitUntilNoIndexBuildsRemain_preserves_registryInvariant:
  "waitUntilNoIndexBuildsRemain n finishing s = Returned s' \<Longrightarrow> registryInvariant s \<Longrightarrow>
   registryInvariant s'"
proof (induction finishing arbitrary: s)
  case Nil
  then show ?case by (simp split: if_splits)
next
  case (Cons bid finishing)
  show ?case
  proof (cases "n s = 0")
    case True
    with Cons.prems show ?thesis by simp
  next
    case False
    with Cons.prems(1) obtain s1 where
      un: "runIndexBuild_unregister bid s = Returned s1"
      and rest: "waitUntilNoIndexBuildsRemain n finishing s1 = Returned s'"
      by (auto simp add: bind_outcome_def split: outcome.splits)
    from un obtain r where r: "map_of (allIndexBuilds s) bid = Some r"
      and u: "unregisterIndexBuild r s = Returned s1"
      by (auto simp add: runIndexBuild_unregister_def split: option.splits)
    from Cons.prems(2) r have "buildUUID r = bid"
      unfolding registryInvariant_map_of by blast
    with r have held: "map_of (allIndexBuilds s) (buildUUID r) = Some r" by simp
    from unregisterIndexBuild_preserves_registryInvariant [OF u Cons.prems(2) held]
    have "registryInvariant s1" .
    with rest show ?thesis by (rule Cons.IH)
  qed
qed

lemma waitUntilNoIndexBuildsRemain_returns_empty:
  "waitUntilNoIndexBuildsRemain n finishing s = Returned s' \<Longrightarrow> n s' = 0"
proof (induction finishing arbitrary: s)
  case Nil
  then show ?case by (simp split: if_splits)
next
  case (Cons bid finishing)
  show ?case
  proof (cases "n s = 0")
    case True
    with Cons.prems show ?thesis by simp
  next
    case False
    with Cons.prems obtain s1 where
      rest: "waitUntilNoIndexBuildsRemain n finishing s1 = Returned s'"
      by (auto simp add: bind_outcome_def split: outcome.splits)
    then show ?thesis by (rule Cons.IH)
  qed
qed

lemma abortCollectionIndexBuilds_preserves_registryInvariant:
  assumes "abortCollectionIndexBuilds managerAborts finishing cid reason s = Returned (s', evs)"
    and "registryInvariant s"
  shows "registryInvariant s'"
proof (cases "map_of (collectionIndexBuilds s) cid")
  case None
  with assms show ?thesis
    by (simp add: abortCollectionIndexBuilds_def split: if_splits)
next
  case (Some tracker)
  with assms(1) obtain builds e where
    run: "runOperationOnAllBuilds (buildStateByBuildUUID tracker) managerAborts reason
            (allIndexBuilds s) = Returned (builds, e)"
    and wait: "waitUntilNoIndexBuildsRemain (numberOfCollectionIndexBuilds cid) finishing
                 (s\<lparr>allIndexBuilds := builds\<rparr>) = Returned s'"
    by (auto simp add: abortCollectionIndexBuilds_def bind_outcome_def
        split: if_splits outcome.splits)
  from runOperationOnAllBuilds_sameBuild [OF run]
  have "list_all2 sameBuild (allIndexBuilds s) (allIndexBuilds (s\<lparr>allIndexBuilds := builds\<rparr>))"
    by simp
  with assms(2) have "registryInvariant (s\<lparr>allIndexBuilds := builds\<rparr>)"
    by (rule registryInvariant_sameBuilds) simp_all
  with wait show ?thesis by (rule waitUntilNoIndexBuildsRemain_preserves_registryInvariant)
qed

text \<open>When \<^verbatim>\<open>abortCollectionIndexBuilds\<close> returns, the collection has no build left.\<close>

lemma abortCollectionIndexBuilds_returns_empty:
  assumes "abortCollectionIndexBuilds managerAborts finishing cid reason s = Returned (s', evs)"
  shows "numberOfCollectionIndexBuilds cid s' = 0"
proof (cases "map_of (collectionIndexBuilds s) cid")
  case None
  with assms show ?thesis
    by (auto simp add: abortCollectionIndexBuilds_def numberOfCollectionIndexBuilds_def
        split: if_splits)
next
  case (Some tracker)
  with assms obtain s1 where
    "waitUntilNoIndexBuildsRemain (numberOfCollectionIndexBuilds cid) finishing s1 = Returned s'"
    by (auto simp add: abortCollectionIndexBuilds_def bind_outcome_def
        split: if_splits outcome.splits)
  then show ?thesis by (rule waitUntilNoIndexBuildsRemain_returns_empty)
qed

lemma registryInvariant_cong:
  assumes "allIndexBuilds s' = allIndexBuilds s"
    and "collectionIndexBuilds s' = collectionIndexBuilds s"
    and "databaseIndexBuilds s' = databaseIndexBuilds s"
  shows "registryInvariant s' = registryInvariant s"
proof -
  have bc: "buildsOfCollection s' = buildsOfCollection s"
    by (rule ext) (simp add: buildsOfCollection_def assms)
  have bd: "buildsOfDatabase s' = buildsOfDatabase s"
    by (rule ext) (simp add: buildsOfDatabase_def assms)
  show ?thesis
    by (simp only: registryInvariant_def assms bc bd)
qed

lemma registryInvariant_disallowedDbs:
  "registryInvariant (s\<lparr>disallowedDbs := m\<rparr>) = registryInvariant s"
  by (rule registryInvariant_cong) simp_all

lemma registryInvariant_disallowedCollections:
  "registryInvariant (s\<lparr>disallowedCollections := m\<rparr>) = registryInvariant s"
  by (rule registryInvariant_cong) simp_all

lemma stopIndexBuildsOnDatabase_preserves_registryInvariant:
  "registryInvariant (stopIndexBuildsOnDatabase db s) = registryInvariant s"
  by (rule registryInvariant_cong)
     (simp_all add: stopIndexBuildsOnDatabase_def split: option.splits)

lemma stopIndexBuildsOnCollection_preserves_registryInvariant:
  "registryInvariant (stopIndexBuildsOnCollection cid s) = registryInvariant s"
  by (rule registryInvariant_cong)
     (simp_all add: stopIndexBuildsOnCollection_def split: option.splits)

lemma allowIndexBuildsOnDatabase_preserves_registryInvariant:
  assumes "allowIndexBuildsOnDatabase db s = Returned s'" and "registryInvariant s"
  shows "registryInvariant s'"
proof (cases "map_of (disallowedDbs s) db")
  case None
  with assms(1) show ?thesis by (simp add: allowIndexBuildsOnDatabase_def)
next
  case (Some n)
  with assms(1) have "s' = s\<lparr>disallowedDbs := AList.delete db (disallowedDbs s)\<rparr>
      \<or> s' = s\<lparr>disallowedDbs := AList.update db (n - 1) (disallowedDbs s)\<rparr>"
    by (cases "n = 0"; cases "n - 1 = 0") (simp_all add: allowIndexBuildsOnDatabase_def)
  with assms(2) show ?thesis
    by (auto simp add: registryInvariant_disallowedDbs)
qed

lemma allowIndexBuildsOnCollection_preserves_registryInvariant:
  assumes "allowIndexBuildsOnCollection cid s = Returned s'" and "registryInvariant s"
  shows "registryInvariant s'"
proof (cases "map_of (disallowedCollections s) cid")
  case None
  with assms(1) show ?thesis by (simp add: allowIndexBuildsOnCollection_def)
next
  case (Some n)
  with assms(1) have "s' = s\<lparr>disallowedCollections := AList.delete cid (disallowedCollections s)\<rparr>
      \<or> s' = s\<lparr>disallowedCollections := AList.update cid (n - 1) (disallowedCollections s)\<rparr>"
    by (cases "n > 0"; cases "n - 1 = 0") (simp_all add: allowIndexBuildsOnCollection_def)
  with assms(2) show ?thesis
    by (auto simp add: registryInvariant_disallowedCollections)
qed

text \<open>With a tracker for the database in place, so does \<^verbatim>\<open>abortDatabaseIndexBuilds\<close>.\<close>

lemma abortDatabaseIndexBuilds_preserves_registryInvariant:
  assumes "abortDatabaseIndexBuilds managerAborts finishing db reason s = Returned (s', evs)"
    and "registryInvariant s"
    and "map_of (databaseIndexBuilds s) db \<noteq> None"
  shows "registryInvariant s'"
proof -
  from assms(3) obtain t where t: "map_of (databaseIndexBuilds s) db = Some t" by auto
  from assms(2) have "case map_of (databaseIndexBuilds s) db of
                   None \<Rightarrow> buildsOfDatabase s db = []
                 | Some None \<Rightarrow> False
                 | Some (Some tr) \<Rightarrow> dbAllIndexBuilds tr = buildsOfDatabase s db
                            \<and> buildsOfDatabase s db \<noteq> []"
    unfolding registryInvariant_map_of by blast
  with t have "t \<noteq> None" by (auto split: option.splits)
  then obtain tracker where tr: "t = Some tracker" by auto
  from assms(1) t tr obtain builds e where
    run: "runOperationOnAllBuilds (dbAllIndexBuilds tracker) managerAborts reason
            (allIndexBuilds s) = Returned (builds, e)"
    and wait: "waitUntilNoIndexBuildsRemain (numberOfDatabaseIndexBuilds db) finishing
                 (s\<lparr>databaseIndexBuilds := databaseIndexBuilds s, allIndexBuilds := builds\<rparr>)
               = Returned s'"
    by (auto simp add: abortDatabaseIndexBuilds_def subscriptDatabaseIndexBuilds_def
        bind_outcome_def split: if_splits outcome.splits)
  from runOperationOnAllBuilds_sameBuild [OF run]
  have "list_all2 sameBuild (allIndexBuilds s)
          (allIndexBuilds (s\<lparr>databaseIndexBuilds := databaseIndexBuilds s, allIndexBuilds := builds\<rparr>))"
    by simp
  with assms(2)
  have "registryInvariant (s\<lparr>databaseIndexBuilds := databaseIndexBuilds s, allIndexBuilds := builds\<rparr>)"
    by (rule registryInvariant_sameBuilds) simp_all
  with wait show ?thesis by (rule waitUntilNoIndexBuildsRemain_preserves_registryInvariant)
qed

text \<open>Without one it does not: the state of claim C4.\<close>

lemma abortDatabaseIndexBuilds_breaks_registryInvariant:
  "registryInvariant (stopIndexBuildsOnDatabase ''test'' emptyCoordinator)
   \<and> abortDatabaseIndexBuilds (\<lambda>_. False) [] ''test'' ''dropDatabase''
        (stopIndexBuildsOnDatabase ''test'' emptyCoordinator)
       = Returned ((stopIndexBuildsOnDatabase ''test'' emptyCoordinator)
                     \<lparr>databaseIndexBuilds := [(''test'', None)]\<rparr>, [])
   \<and> \<not> registryInvariant ((stopIndexBuildsOnDatabase ''test'' emptyCoordinator)
                              \<lparr>databaseIndexBuilds := [(''test'', None)]\<rparr>)"
proof (intro conjI)
  show "registryInvariant (stopIndexBuildsOnDatabase ''test'' emptyCoordinator)"
    by (simp add: stopIndexBuildsOnDatabase_preserves_registryInvariant)
       (simp add: registryInvariant_def emptyCoordinator_def)
  show "abortDatabaseIndexBuilds (\<lambda>_. False) [] ''test'' ''dropDatabase''
        (stopIndexBuildsOnDatabase ''test'' emptyCoordinator)
       = Returned ((stopIndexBuildsOnDatabase ''test'' emptyCoordinator)
                     \<lparr>databaseIndexBuilds := [(''test'', None)]\<rparr>, [])"
    by (simp add: emptyCoordinator_def abortDatabaseIndexBuilds_def stopIndexBuildsOnDatabase_def
        subscriptDatabaseIndexBuilds_def)
  show "\<not> registryInvariant ((stopIndexBuildsOnDatabase ''test'' emptyCoordinator)
                              \<lparr>databaseIndexBuilds := [(''test'', None)]\<rparr>)"
    by (simp add: registryInvariant_def)
qed

lemma registryInvariant_everyBuildTracked:
  assumes "registryInvariant s"
  shows "everyBuildTracked s"
  unfolding everyBuildTracked_def
proof clarify
  fix bid r assume m: "(bid, r) \<in> set (allIndexBuilds s)"
  from assms have "case map_of (collectionIndexBuilds s) (collectionUUID r) of
                   None \<Rightarrow> buildsOfCollection s (collectionUUID r) = []
                 | Some t \<Rightarrow> buildStateByBuildUUID t = buildsOfCollection s (collectionUUID r)
                            \<and> buildsOfCollection s (collectionUUID r) \<noteq> []"
    unfolding registryInvariant_map_of by blast
  moreover from m have "bid \<in> set (buildsOfCollection s (collectionUUID r))"
    by (force simp add: buildsOfCollection_def)
  ultimately show "case map_of (collectionIndexBuilds s) (collectionUUID r) of
          None \<Rightarrow> False
        | Some t \<Rightarrow> bid \<in> set (buildStateByBuildUUID t)"
    by (auto split: option.splits)
qed

text \<open>
  Unregistration undoes registration: in a coordinator that satisfies the invariant, a
  record that has just been registered is unregistered without failing, and the coordinator
  is then what it was before the registration. In any coordinator, unregistration leaves
  no trace of the build in the by-id mapping, in the tracker of its collection and in the
  tracker of its database.
\<close>

lemma delete_update_absent:
  "map_of m k = None \<Longrightarrow> AList.delete k (AList.update k v m) = m"
  by (induction m) (auto split: if_splits)

lemma update_update_present:
  "map_of m k = Some v \<Longrightarrow> AList.update k v (AList.update k v' m) = m"
  by (induction m) (auto split: if_splits)

lemma map_of_filter_key_None:
  "\<not> P k \<Longrightarrow> map_of (filter (\<lambda>(k', v). P k') al) k = None"
  by (induction al) auto

lemma filter_names_id:
  "\<forall>name \<in> set names. map_of al name = None \<Longrightarrow>
   filter (\<lambda>(name, h). name \<notin> set names) (al @ map (\<lambda>name. (name, b)) names) = al"
proof -
  assume a: "\<forall>name \<in> set names. map_of al name = None"
  have "filter (\<lambda>(name, h). name \<notin> set names) al = al"
  proof (rule filter_True, clarify)
    fix name h assume m: "(name, h) \<in> set al" and n: "name \<in> set names"
    from a n have "map_of al name = None" by blast
    with m show False by (simp add: map_of_eq_None_iff rev_image_eqI)
  qed
  moreover have "filter (\<lambda>(name, h). name \<notin> set names) (map (\<lambda>name. (name, b)) names) = []"
    by (induction names) auto
  ultimately show ?thesis by simp
qed

lemma unregisterIndexBuild_blockers:
  "unregisterIndexBuild r s = Returned s' \<Longrightarrow>
   disallowedDbs s' = disallowedDbs s \<and> disallowedCollections s' = disallowedCollections s"
  by (auto simp add: unregisterIndexBuild_def Let_def split: option.splits if_splits)

lemma registerIndexBuild_OK_no_conflict:
  assumes "registerIndexBuild r s = Returned (OK, s1)"
  shows "nameConflict r s = Returned None"
  using assms nameConflict_not_OK [of r s]
  by (auto simp add: registerIndexBuild_def bind_outcome_def Let_def
      split: if_splits outcome.splits option.splits)

lemma nameConflict_None_names:
  assumes "nameConflict r s = Returned None"
    and "map_of (collectionIndexBuilds s) (collectionUUID r) = Some ct"
  shows "\<forall>name \<in> set (indexNames r). map_of (buildStateByIndexName ct) name = None"
proof -
  from assms have "find (hasIndexBuildState ct) (indexNames r) = None"
    by (auto simp add: nameConflict_def split: option.splits)
  then show ?thesis
    by (auto simp add: find_None_iff hasIndexBuildState_def)
qed

lemma unregister_after_register_restores:
  assumes reg: "registerIndexBuild r s = Returned (OK, s1)" and inv: "registryInvariant s"
  shows "unregisterIndexBuild r s1 = Returned s"
proof -
  let ?bid = "buildUUID r" and ?cid = "collectionUUID r" and ?db = "dbName r"
  from registerIndexBuild_OK_state [OF reg]
  have fresh: "map_of (allIndexBuilds s) ?bid = None"
    and all1: "allIndexBuilds s1 = allIndexBuilds s @ [(?bid, r)]"
    and colls1: "collectionIndexBuilds s1 =
        AList.update ?cid
          (coll_addIndexBuild
             (case map_of (collectionIndexBuilds s) ?cid of
                Some t \<Rightarrow> t | None \<Rightarrow> emptyCollectionTracker) r)
          (collectionIndexBuilds s)"
    and dbs1: "databaseIndexBuilds s1 =
        AList.update ?db
          (Some (db_addIndexBuild
             (case map_of (databaseIndexBuilds s) ?db of
                Some (Some t) \<Rightarrow> t | _ \<Rightarrow> emptyDatabaseTracker) r))
          (databaseIndexBuilds s)"
    and bl1: "disallowedDbs s1 = disallowedDbs s" "disallowedCollections s1 = disallowedCollections s"
    by auto
  from unregister_after_register [OF reg] obtain s2 where
    un: "unregisterIndexBuild r s1 = Returned s2"
    and all2: "allIndexBuilds s2 = allIndexBuilds s"
    by blast
  from unregisterIndexBuild_blockers [OF un] bl1
  have bl2: "disallowedDbs s2 = disallowedDbs s" "disallowedCollections s2 = disallowedCollections s"
    by simp_all
  from inv have c: "\<And>cid. case map_of (collectionIndexBuilds s) cid of
                   None \<Rightarrow> buildsOfCollection s cid = []
                 | Some t \<Rightarrow> buildStateByBuildUUID t = buildsOfCollection s cid
                            \<and> buildsOfCollection s cid \<noteq> []"
    and b: "\<And>db. case map_of (databaseIndexBuilds s) db of
                   None \<Rightarrow> buildsOfDatabase s db = []
                 | Some None \<Rightarrow> False
                 | Some (Some tr) \<Rightarrow> dbAllIndexBuilds tr = buildsOfDatabase s db
                            \<and> buildsOfDatabase s db \<noteq> []"
    unfolding registryInvariant_map_of by blast+
  from fresh have notin: "?bid \<notin> fst ` set (allIndexBuilds s)"
    by (simp add: map_of_eq_None_iff)
  then have nc: "\<And>cid. ?bid \<notin> set (buildsOfCollection s cid)"
    and nd: "\<And>db. ?bid \<notin> set (buildsOfDatabase s db)"
    by (auto simp add: buildsOfCollection_def buildsOfDatabase_def)
  from unregisterIndexBuild_state [OF un] obtain dbt ct where
    dbt: "map_of (databaseIndexBuilds s1) ?db = Some (Some dbt)"
    and ct: "map_of (collectionIndexBuilds s1) ?cid = Some ct"
    and dbs2: "databaseIndexBuilds s2 =
             (if removeAll ?bid (dbAllIndexBuilds dbt) = []
              then AList.delete ?db (databaseIndexBuilds s1)
              else AList.update ?db
                     (Some (dbt\<lparr>dbAllIndexBuilds := removeAll ?bid (dbAllIndexBuilds dbt)\<rparr>))
                     (databaseIndexBuilds s1))"
    and colls2: "collectionIndexBuilds s2 =
             (if removeAll ?bid (buildStateByBuildUUID ct) = []
              then AList.delete ?cid (collectionIndexBuilds s1)
              else AList.update ?cid (coll_removeIndexBuild ct r) (collectionIndexBuilds s1))"
    by blast
  have dbs: "databaseIndexBuilds s2 = databaseIndexBuilds s"
  proof (cases "map_of (databaseIndexBuilds s) ?db")
    case None
    with dbt have "dbt = \<lparr>dbAllIndexBuilds = [?bid]\<rparr>"
      by (simp add: dbs1 AList.update_conv' db_addIndexBuild_def emptyDatabaseTracker_def)
    then show ?thesis
      using None by (simp add: dbs2 dbs1 delete_update_absent)
  next
    case (Some v)
    with b [of ?db] obtain tr where v: "v = Some tr"
      and tr: "dbAllIndexBuilds tr = buildsOfDatabase s ?db" "buildsOfDatabase s ?db \<noteq> []"
      by (auto split: option.splits)
    from dbt Some v have d: "dbt = tr\<lparr>dbAllIndexBuilds := dbAllIndexBuilds tr @ [?bid]\<rparr>"
      by (simp add: dbs1 AList.update_conv' db_addIndexBuild_def)
    from nd [of ?db] tr have rm: "removeAll ?bid (dbAllIndexBuilds tr) = dbAllIndexBuilds tr"
      by (simp add: removeAll_id)
    from d rm have rm': "removeAll ?bid (dbAllIndexBuilds dbt) = dbAllIndexBuilds tr" by simp
    with tr have ne: "removeAll ?bid (dbAllIndexBuilds dbt) \<noteq> []" by simp
    from d rm have e: "dbt\<lparr>dbAllIndexBuilds := removeAll ?bid (dbAllIndexBuilds dbt)\<rparr> = tr"
      by (cases tr) simp
    from Some v have "map_of (databaseIndexBuilds s) ?db = Some (Some tr)" by simp
    then have "AList.update ?db (Some tr) (databaseIndexBuilds s1) = databaseIndexBuilds s"
      unfolding dbs1 by (rule update_update_present)
    with ne e show ?thesis by (simp add: dbs2)
  qed
  have colls: "collectionIndexBuilds s2 = collectionIndexBuilds s"
  proof (cases "map_of (collectionIndexBuilds s) ?cid")
    case None
    with ct have "ct = \<lparr>buildStateByBuildUUID = [?bid],
                        buildStateByIndexName = map (\<lambda>name. (name, ?bid)) (indexNames r)\<rparr>"
      by (simp add: colls1 AList.update_conv' coll_addIndexBuild_def emptyCollectionTracker_def)
    then show ?thesis
      using None by (simp add: colls2 colls1 delete_update_absent)
  next
    case (Some t0)
    with c [of ?cid] have t0: "buildStateByBuildUUID t0 = buildsOfCollection s ?cid"
      "buildsOfCollection s ?cid \<noteq> []"
      by simp_all
    from ct Some have d: "ct = coll_addIndexBuild t0 r"
      by (simp add: colls1 AList.update_conv')
    from nc [of ?cid] t0 have rm: "removeAll ?bid (buildStateByBuildUUID t0) = buildStateByBuildUUID t0"
      by (simp add: removeAll_id)
    from nameConflict_None_names [OF registerIndexBuild_OK_no_conflict [OF reg] Some]
    have names: "\<forall>name \<in> set (indexNames r). map_of (buildStateByIndexName t0) name = None" .
    have restored: "coll_removeIndexBuild ct r = t0"
      using rm filter_names_id [OF names, of ?bid]
      by (cases t0) (simp add: d coll_removeIndexBuild_def coll_addIndexBuild_def)
    from d rm have rm': "removeAll ?bid (buildStateByBuildUUID ct) = buildStateByBuildUUID t0"
      by (simp add: coll_addIndexBuild_def)
    with t0 have ne: "removeAll ?bid (buildStateByBuildUUID ct) \<noteq> []" by simp
    from Some have "AList.update ?cid t0 (collectionIndexBuilds s1) = collectionIndexBuilds s"
      unfolding colls1 by (rule update_update_present)
    with ne restored show ?thesis by (simp add: colls2)
  qed
  have "s2 = s"
    by (rule IndexBuildsCoordinator.equality) (simp_all add: all2 dbs colls bl2)
  with un show ?thesis by simp
qed

lemma unregisterIndexBuild_clears_trackers:
  assumes un: "unregisterIndexBuild r s = Returned s'"
  shows "(\<forall>t. map_of (collectionIndexBuilds s') (collectionUUID r) = Some t
            \<longrightarrow> buildUUID r \<notin> set (buildStateByBuildUUID t)
                \<and> (\<forall>name \<in> set (indexNames r). \<not> hasIndexBuildState t name))
       \<and> (\<forall>t. map_of (databaseIndexBuilds s') (dbName r) = Some (Some t)
            \<longrightarrow> buildUUID r \<notin> set (dbAllIndexBuilds t))
       \<and> map_of (allIndexBuilds s') (buildUUID r) = None"
proof -
  from unregisterIndexBuild_state [OF un] obtain dbt ct where
    all': "allIndexBuilds s' = AList.delete (buildUUID r) (allIndexBuilds s)"
    and dbs': "databaseIndexBuilds s' =
             (if removeAll (buildUUID r) (dbAllIndexBuilds dbt) = []
              then AList.delete (dbName r) (databaseIndexBuilds s)
              else AList.update (dbName r)
                     (Some (dbt\<lparr>dbAllIndexBuilds := removeAll (buildUUID r) (dbAllIndexBuilds dbt)\<rparr>))
                     (databaseIndexBuilds s))"
    and colls': "collectionIndexBuilds s' =
             (if removeAll (buildUUID r) (buildStateByBuildUUID ct) = []
              then AList.delete (collectionUUID r) (collectionIndexBuilds s)
              else AList.update (collectionUUID r) (coll_removeIndexBuild ct r)
                     (collectionIndexBuilds s))"
    by blast
  have names: "\<And>name. name \<in> set (indexNames r) \<Longrightarrow>
      map_of (filter (\<lambda>(name, h). name \<notin> set (indexNames r)) (buildStateByIndexName ct)) name = None"
    by (rule map_of_filter_key_None) simp
  have c: "\<forall>t. map_of (collectionIndexBuilds s') (collectionUUID r) = Some t
            \<longrightarrow> buildUUID r \<notin> set (buildStateByBuildUUID t)
                \<and> (\<forall>name \<in> set (indexNames r). \<not> hasIndexBuildState t name)"
    using names
    by (auto simp add: colls' AList.update_conv' AList.delete_conv' coll_removeIndexBuild_def
        hasIndexBuildState_def split: if_splits)
  have d: "\<forall>t. map_of (databaseIndexBuilds s') (dbName r) = Some (Some t)
            \<longrightarrow> buildUUID r \<notin> set (dbAllIndexBuilds t)"
    by (auto simp add: dbs' AList.update_conv' AList.delete_conv' split: if_splits)
  have a: "map_of (allIndexBuilds s') (buildUUID r) = None"
    by (simp add: all' AList.delete_conv')
  from c d a show ?thesis by blast
qed

section \<open>Every registered build is tracked\<close>

text \<open>
  Registration puts the handle of a build into the tracker of its collection before the
  record enters the by-id mapping, and unregistration takes both out. That every registered
  build is held by the tracker of its collection is true of the empty coordinator and is
  kept by every operation that returns, the abort of a database's builds included.
\<close>

lemma everyBuildTracked_emptyCoordinator: "everyBuildTracked emptyCoordinator"
  by (simp add: everyBuildTracked_def emptyCoordinator_def)

lemma registerIndexBuild_not_OK_state:
  assumes "registerIndexBuild r s = Returned (st, s')" and "st \<noteq> OK"
  shows "s' = s"
  using assms
  by (auto simp add: registerIndexBuild_def bind_outcome_def Let_def
      split: if_splits outcome.splits option.splits)

lemma registerIndexBuild_preserves_everyBuildTracked:
  assumes reg: "registerIndexBuild r s = Returned (st, s')" and inv: "everyBuildTracked s"
  shows "everyBuildTracked s'"
proof (cases "st = OK")
  case False
  with registerIndexBuild_not_OK_state [OF reg] inv show ?thesis by simp
next
  case True
  with reg have reg': "registerIndexBuild r s = Returned (OK, s')" by simp
  from registerIndexBuild_OK_state [OF reg']
  have all': "allIndexBuilds s' = allIndexBuilds s @ [(buildUUID r, r)]"
    and colls': "collectionIndexBuilds s' =
        AList.update (collectionUUID r)
          (coll_addIndexBuild
             (case map_of (collectionIndexBuilds s) (collectionUUID r) of
                Some t \<Rightarrow> t | None \<Rightarrow> emptyCollectionTracker) r)
          (collectionIndexBuilds s)"
    by auto
  show ?thesis
    unfolding everyBuildTracked_def
  proof clarify
    fix bid x assume m: "(bid, x) \<in> set (allIndexBuilds s')"
    show "case map_of (collectionIndexBuilds s') (collectionUUID x) of
            None \<Rightarrow> False
          | Some t \<Rightarrow> bid \<in> set (buildStateByBuildUUID t)"
    proof (cases "(bid, x) \<in> set (allIndexBuilds s)")
      case True
      with inv have "case map_of (collectionIndexBuilds s) (collectionUUID x) of
            None \<Rightarrow> False
          | Some t \<Rightarrow> bid \<in> set (buildStateByBuildUUID t)"
        by (auto simp add: everyBuildTracked_def)
      then show ?thesis
        by (auto simp add: colls' AList.update_conv' coll_addIndexBuild_def split: option.splits)
    next
      case False
      with m have "bid = buildUUID r" "x = r" by (auto simp add: all')
      then show ?thesis
        by (simp add: colls' AList.update_conv' coll_addIndexBuild_def)
    qed
  qed
qed

lemma unregisterIndexBuild_preserves_everyBuildTracked:
  assumes un: "unregisterIndexBuild r s = Returned s'" and inv: "everyBuildTracked s"
  shows "everyBuildTracked s'"
proof -
  let ?bid = "buildUUID r" and ?cid = "collectionUUID r"
  from unregisterIndexBuild_state [OF un] obtain ct where
    ct: "map_of (collectionIndexBuilds s) ?cid = Some ct"
    and all': "allIndexBuilds s' = AList.delete ?bid (allIndexBuilds s)"
    and colls': "collectionIndexBuilds s' =
             (if removeAll ?bid (buildStateByBuildUUID ct) = []
              then AList.delete ?cid (collectionIndexBuilds s)
              else AList.update ?cid (coll_removeIndexBuild ct r) (collectionIndexBuilds s))"
    by blast
  show ?thesis
    unfolding everyBuildTracked_def
  proof clarify
    fix bid x assume m: "(bid, x) \<in> set (allIndexBuilds s')"
    then have ne: "bid \<noteq> ?bid" and m0: "(bid, x) \<in> set (allIndexBuilds s)"
      by (auto simp add: all' AList.delete_eq)
    from inv m0 have tr: "case map_of (collectionIndexBuilds s) (collectionUUID x) of
            None \<Rightarrow> False
          | Some t \<Rightarrow> bid \<in> set (buildStateByBuildUUID t)"
      by (auto simp add: everyBuildTracked_def)
    show "case map_of (collectionIndexBuilds s') (collectionUUID x) of
            None \<Rightarrow> False
          | Some t \<Rightarrow> bid \<in> set (buildStateByBuildUUID t)"
    proof (cases "collectionUUID x = ?cid")
      case True
      with tr ct have "bid \<in> set (buildStateByBuildUUID ct)" by simp
      with ne have mem: "bid \<in> set (removeAll ?bid (buildStateByBuildUUID ct))" by simp
      then have "removeAll ?bid (buildStateByBuildUUID ct) \<noteq> []"
        by (metis empty_iff empty_set)
      then have "map_of (collectionIndexBuilds s') ?cid = Some (coll_removeIndexBuild ct r)"
        by (simp add: colls' AList.update_conv')
      with mem True show ?thesis
        by (simp add: coll_removeIndexBuild_def)
    next
      case False
      with tr show ?thesis
        by (auto simp add: colls' AList.update_conv' AList.delete_conv' split: option.splits)
    qed
  qed
qed

lemma sameBuild_tracked_by_id:
  "list_all2 sameBuild al al' \<Longrightarrow> \<forall>(bid, r) \<in> set al. P bid (collectionUUID r) \<Longrightarrow>
   \<forall>(bid, r) \<in> set al'. P bid (collectionUUID r)"
  by (induction rule: list_all2_induct) (auto simp add: sameBuild_def)

lemma everyBuildTracked_sameBuilds:
  assumes inv: "everyBuildTracked s"
    and same: "list_all2 sameBuild (allIndexBuilds s) (allIndexBuilds s')"
    and colls: "collectionIndexBuilds s' = collectionIndexBuilds s"
  shows "everyBuildTracked s'"
  using sameBuild_tracked_by_id [OF same,
          of "\<lambda>bid c. case map_of (collectionIndexBuilds s) c of
                         None \<Rightarrow> False
                       | Some t \<Rightarrow> bid \<in> set (buildStateByBuildUUID t)"] inv
  by (simp add: everyBuildTracked_def colls)

lemma everyBuildTracked_cong:
  assumes "allIndexBuilds s' = allIndexBuilds s"
    and "collectionIndexBuilds s' = collectionIndexBuilds s"
  shows "everyBuildTracked s' = everyBuildTracked s"
  by (simp only: everyBuildTracked_def assms)

lemma everyBuildTracked_disallowedDbs:
  "everyBuildTracked (s\<lparr>disallowedDbs := m\<rparr>) = everyBuildTracked s"
  by (rule everyBuildTracked_cong) simp_all

lemma everyBuildTracked_disallowedCollections:
  "everyBuildTracked (s\<lparr>disallowedCollections := m\<rparr>) = everyBuildTracked s"
  by (rule everyBuildTracked_cong) simp_all

lemma everyBuildTracked_databaseIndexBuilds:
  "everyBuildTracked (s\<lparr>databaseIndexBuilds := m\<rparr>) = everyBuildTracked s"
  by (rule everyBuildTracked_cong) simp_all

lemma commitIndexBuild_preserves_everyBuildTracked:
  assumes "commitIndexBuild ts specs bid s = Returned (s', evs)" and "everyBuildTracked s"
  shows "everyBuildTracked s'"
proof -
  from assms(1) obtain r where r: "map_of (allIndexBuilds s) bid = Some r"
    and s': "s' = s\<lparr>allIndexBuilds :=
                    AList.update bid (r\<lparr>isCommitReady := True, commitTimestamp := ts\<rparr>)
                      (allIndexBuilds s)\<rparr>"
    by (auto simp add: commitIndexBuild_def getIndexBuild_def Let_def
        split: option.splits if_splits)
  from update_sameBuild [OF r, of "r\<lparr>isCommitReady := True, commitTimestamp := ts\<rparr>"]
  have "list_all2 sameBuild (allIndexBuilds s) (allIndexBuilds s')" by (simp add: s')
  with assms(2) show ?thesis by (rule everyBuildTracked_sameBuilds) (simp add: s')
qed

lemma abortIndexBuildByBuildUUID_preserves_everyBuildTracked:
  assumes "abortIndexBuildByBuildUUID ts bid reason s = Returned (s', evs)"
    and "everyBuildTracked s"
  shows "everyBuildTracked s'"
proof (cases "map_of (allIndexBuilds s) bid")
  case None
  with assms show ?thesis
    by (simp add: abortIndexBuildByBuildUUID_def getIndexBuild_def)
next
  case (Some r)
  with assms(1) have s': "s' = s\<lparr>allIndexBuilds :=
        AList.update bid (r\<lparr>aborted := True, abortTimestamp := ts, abortReason := reason\<rparr>)
          (allIndexBuilds s)\<rparr>"
    by (simp add: abortIndexBuildByBuildUUID_def getIndexBuild_def Let_def)
  from update_sameBuild
         [OF Some, of "r\<lparr>aborted := True, abortTimestamp := ts, abortReason := reason\<rparr>"]
  have "list_all2 sameBuild (allIndexBuilds s) (allIndexBuilds s')" by (simp add: s')
  with assms(2) show ?thesis by (rule everyBuildTracked_sameBuilds) (simp add: s')
qed

lemma onStepUp_preserves_everyBuildTracked:
  assumes "onStepUp s = Returned (s', evs)" and "everyBuildTracked s"
  shows "everyBuildTracked s'"
proof -
  from assms(1) obtain builds where
    fe: "forEachIndexBuild (allIndexBuilds s) onStepUp_onIndexBuild = Returned (builds, evs)"
    and s': "s' = s\<lparr>allIndexBuilds := builds\<rparr>"
    by (auto simp add: onStepUp_def bind_outcome_def split: outcome.splits)
  have "list_all2 sameBuild (allIndexBuilds s) builds"
    by (rule forEachIndexBuild_sameBuild [OF _ fe])
       (auto simp add: onStepUp_onIndexBuild_def split: if_splits)
  then have "list_all2 sameBuild (allIndexBuilds s) (allIndexBuilds s')" by (simp add: s')
  with assms(2) show ?thesis by (rule everyBuildTracked_sameBuilds) (simp add: s')
qed

lemma onRollback_preserves_everyBuildTracked:
  assumes "onRollback s = Returned (s', evs)" and "everyBuildTracked s"
  shows "everyBuildTracked s'"
proof -
  from assms(1) obtain builds where
    fe: "forEachIndexBuild (allIndexBuilds s) onRollback_onIndexBuild = Returned (builds, evs)"
    and s': "s' = s\<lparr>allIndexBuilds := builds\<rparr>"
    by (auto simp add: onRollback_def bind_outcome_def split: outcome.splits)
  have "list_all2 sameBuild (allIndexBuilds s) builds"
    by (rule forEachIndexBuild_sameBuild [OF _ fe])
       (auto simp add: onRollback_onIndexBuild_def split: if_splits)
  then have "list_all2 sameBuild (allIndexBuilds s) (allIndexBuilds s')" by (simp add: s')
  with assms(2) show ?thesis by (rule everyBuildTracked_sameBuilds) (simp add: s')
qed

lemma stopIndexBuildsOnDatabase_preserves_everyBuildTracked:
  "everyBuildTracked (stopIndexBuildsOnDatabase db s) = everyBuildTracked s"
  by (rule everyBuildTracked_cong)
     (simp_all add: stopIndexBuildsOnDatabase_def split: option.splits)

lemma stopIndexBuildsOnCollection_preserves_everyBuildTracked:
  "everyBuildTracked (stopIndexBuildsOnCollection cid s) = everyBuildTracked s"
  by (rule everyBuildTracked_cong)
     (simp_all add: stopIndexBuildsOnCollection_def split: option.splits)

lemma allowIndexBuildsOnDatabase_preserves_everyBuildTracked:
  assumes "allowIndexBuildsOnDatabase db s = Returned s'" and "everyBuildTracked s"
  shows "everyBuildTracked s'"
proof (cases "map_of (disallowedDbs s) db")
  case None
  with assms(1) show ?thesis by (simp add: allowIndexBuildsOnDatabase_def)
next
  case (Some n)
  with assms(1) have "s' = s\<lparr>disallowedDbs := AList.delete db (disallowedDbs s)\<rparr>
      \<or> s' = s\<lparr>disallowedDbs := AList.update db (n - 1) (disallowedDbs s)\<rparr>"
    by (cases "n = 0"; cases "n - 1 = 0") (simp_all add: allowIndexBuildsOnDatabase_def)
  with assms(2) show ?thesis
    by (auto simp add: everyBuildTracked_disallowedDbs)
qed

lemma allowIndexBuildsOnCollection_preserves_everyBuildTracked:
  assumes "allowIndexBuildsOnCollection cid s = Returned s'" and "everyBuildTracked s"
  shows "everyBuildTracked s'"
proof (cases "map_of (disallowedCollections s) cid")
  case None
  with assms(1) show ?thesis by (simp add: allowIndexBuildsOnCollection_def)
next
  case (Some n)
  with assms(1) have "s' = s\<lparr>disallowedCollections := AList.delete cid (disallowedCollections s)\<rparr>
      \<or> s' = s\<lparr>disallowedCollections := AList.update cid (n - 1) (disallowedCollections s)\<rparr>"
    by (cases "n > 0"; cases "n - 1 = 0") (simp_all add: allowIndexBuildsOnCollection_def)
  with assms(2) show ?thesis
    by (auto simp add: everyBuildTracked_disallowedCollections)
qed

lemma waitUntilNoIndexBuildsRemain_preserves_everyBuildTracked:
  "waitUntilNoIndexBuildsRemain n finishing s = Returned s' \<Longrightarrow> everyBuildTracked s \<Longrightarrow>
   everyBuildTracked s'"
proof (induction finishing arbitrary: s)
  case Nil
  then show ?case by (simp split: if_splits)
next
  case (Cons bid finishing)
  show ?case
  proof (cases "n s = 0")
    case True
    with Cons.prems show ?thesis by simp
  next
    case False
    with Cons.prems(1) obtain s1 where
      un: "runIndexBuild_unregister bid s = Returned s1"
      and rest: "waitUntilNoIndexBuildsRemain n finishing s1 = Returned s'"
      by (auto simp add: bind_outcome_def split: outcome.splits)
    from un obtain r where u: "unregisterIndexBuild r s = Returned s1"
      by (auto simp add: runIndexBuild_unregister_def split: option.splits)
    from unregisterIndexBuild_preserves_everyBuildTracked [OF u Cons.prems(2)]
    have "everyBuildTracked s1" .
    with rest show ?thesis by (rule Cons.IH)
  qed
qed

lemma abortCollectionIndexBuilds_preserves_everyBuildTracked:
  assumes "abortCollectionIndexBuilds managerAborts finishing cid reason s = Returned (s', evs)"
    and "everyBuildTracked s"
  shows "everyBuildTracked s'"
proof (cases "map_of (collectionIndexBuilds s) cid")
  case None
  with assms show ?thesis
    by (simp add: abortCollectionIndexBuilds_def split: if_splits)
next
  case (Some tracker)
  with assms(1) obtain builds e where
    run: "runOperationOnAllBuilds (buildStateByBuildUUID tracker) managerAborts reason
            (allIndexBuilds s) = Returned (builds, e)"
    and wait: "waitUntilNoIndexBuildsRemain (numberOfCollectionIndexBuilds cid) finishing
                 (s\<lparr>allIndexBuilds := builds\<rparr>) = Returned s'"
    by (auto simp add: abortCollectionIndexBuilds_def bind_outcome_def
        split: if_splits outcome.splits)
  from runOperationOnAllBuilds_sameBuild [OF run]
  have "list_all2 sameBuild (allIndexBuilds s) (allIndexBuilds (s\<lparr>allIndexBuilds := builds\<rparr>))"
    by simp
  with assms(2) have "everyBuildTracked (s\<lparr>allIndexBuilds := builds\<rparr>)"
    by (rule everyBuildTracked_sameBuilds) simp
  with wait show ?thesis by (rule waitUntilNoIndexBuildsRemain_preserves_everyBuildTracked)
qed

lemma abortDatabaseIndexBuilds_preserves_everyBuildTracked:
  assumes "abortDatabaseIndexBuilds managerAborts finishing db reason s = Returned (s', evs)"
    and "everyBuildTracked s"
  shows "everyBuildTracked s'"
proof -
  obtain dbs dbIndexBuilds where
    sub: "subscriptDatabaseIndexBuilds db (databaseIndexBuilds s) = (dbs, dbIndexBuilds)"
    by (cases "subscriptDatabaseIndexBuilds db (databaseIndexBuilds s)")
  show ?thesis
  proof (cases dbIndexBuilds)
    case None
    with assms(1) sub have "s' = s\<lparr>databaseIndexBuilds := dbs\<rparr>"
      by (simp add: abortDatabaseIndexBuilds_def split: if_splits)
    with assms(2) show ?thesis by (simp add: everyBuildTracked_databaseIndexBuilds)
  next
    case (Some tracker)
    with assms(1) sub obtain builds e where
      run: "runOperationOnAllBuilds (dbAllIndexBuilds tracker) managerAborts reason
              (allIndexBuilds s) = Returned (builds, e)"
      and wait: "waitUntilNoIndexBuildsRemain (numberOfDatabaseIndexBuilds db) finishing
                   (s\<lparr>databaseIndexBuilds := dbs, allIndexBuilds := builds\<rparr>) = Returned s'"
      by (auto simp add: abortDatabaseIndexBuilds_def bind_outcome_def
          split: if_splits outcome.splits)
    from runOperationOnAllBuilds_sameBuild [OF run]
    have "list_all2 sameBuild (allIndexBuilds s)
            (allIndexBuilds (s\<lparr>databaseIndexBuilds := dbs, allIndexBuilds := builds\<rparr>))"
      by simp
    with assms(2)
    have "everyBuildTracked (s\<lparr>databaseIndexBuilds := dbs, allIndexBuilds := builds\<rparr>)"
      by (rule everyBuildTracked_sameBuilds) simp
    with wait show ?thesis by (rule waitUntilNoIndexBuildsRemain_preserves_everyBuildTracked)
  qed
qed

lemma registerAndSetUpIndexBuild_preserves_everyBuildTracked:
  assumes "registerAndSetUpIndexBuild replCoord coll autoColl relax setUpStatus
             db cid specs bid proto quorum s = Returned (res, s', evs)"
    and "everyBuildTracked s"
  shows "everyBuildTracked s'"
proof (cases "addDefaultsAndFilterExistingIndexes replCoord coll specs")
  case (Returned filteredSpecs)
  let ?r = "newReplIndexBuildState bid cid db filteredSpecs proto quorum (numIndexesTotal coll)"
  show ?thesis
  proof (cases "length filteredSpecs = 0")
    case True
    with assms Returned show ?thesis
      by (auto simp add: registerAndSetUpIndexBuild_def Let_def split: if_splits)
  next
    case False
    with assms(1) Returned obtain status s1 where
      reg: "registerIndexBuild ?r s = Returned (status, s1)"
      and rest: "s' = s1 \<or> unregisterIndexBuild ?r s1 = Returned s'"
      by (auto simp add: registerAndSetUpIndexBuild_def Let_def bind_outcome_def
          split: if_splits outcome.splits)
    from registerIndexBuild_preserves_everyBuildTracked [OF reg assms(2)]
    have "everyBuildTracked s1" .
    with rest unregisterIndexBuild_preserves_everyBuildTracked show ?thesis by blast
  qed
qed (use assms in \<open>auto simp add: registerAndSetUpIndexBuild_def split: if_splits\<close>)

section \<open>Claims\<close>

text \<open>The concrete state is the one registration of build 1 produces.\<close>

lemma register_build1:
  "registerIndexBuild build1 emptyCoordinator = Returned (OK, registered1 build1)"
  by (simp add: example_defs registry_defs)

text \<open>
  Claim C1. The claim: for a registered build the commit and the abort signal exclude each
  other, the later one being a no-op, so that \<open>isCommitReady\<close> and \<open>aborted\<close> are never both
  true. The code does not arbitrate: \<^verbatim>\<open>commitIndexBuild\<close> and
  \<^verbatim>\<open>abortIndexBuildByBuildUUID\<close> each set their flag whatever the other flag is. Evaluated
  on the registered build 1, a commit at timestamp 100 followed by an abort leaves the
  record with both flags true.
\<close>

theorem commit_then_abort_sets_both_flags:
  "bind_outcome (commitIndexBuild 100 [specA] 1 (registered1 build1)) (\<lambda>(s2, evs2).
     bind_outcome (abortIndexBuildByBuildUUID 200 1 ''dropped'' s2) (\<lambda>(s3, evs3).
       Returned (map (\<lambda>r. (isCommitReady r, aborted r)) (getIndexBuilds s3))))
   = Returned [(True, True)]"
  by (simp add: example_defs signal_defs)



text \<open>
  Claim C3. When the filtered list of specifications is empty, setup returns a fulfilled
  future with \<open>numIndexesBefore = numIndexesAfter\<close> and leaves the coordinator as it was.
  When the list is not empty, the registration succeeded and the manager's setup failed
  with \<open>IndexAlreadyExists\<close> (or with \<open>IndexOptionsConflict\<close> or \<open>IndexKeySpecsConflict\<close> under
  relaxed constraints), setup returns a fulfilled future with
  \<open>numIndexesBefore = numIndexesAfter\<close> and no trace of the build remains in the registry:
  the by-id mapping is what it was before the call and holds no record for the build, the
  tracker of the collection, if the collection still has one, holds neither the build nor
  any of its index names, and the tracker of the database, if the database still has one,
  does not hold the build. In a coordinator that satisfies the registry invariant, the
  coordinator is left as it was before the call.
\<close>

theorem setup_short_circuit_ready_future:
  "(isOK autoColl \<and> addDefaultsAndFilterExistingIndexes replCoord coll specs = Returned []
      \<longrightarrow> (\<exists>st. registerAndSetUpIndexBuild replCoord coll autoColl relax setUpStatus
                    db cid specs bid proto quorum s = Returned (ReadyFuture st, s, [])
                 \<and> numIndexesBefore st = numIndexesAfter st))
   \<and> (isOK autoColl
      \<and> addDefaultsAndFilterExistingIndexes replCoord coll specs = Returned filteredSpecs
      \<and> filteredSpecs \<noteq> []
      \<and> registerIndexBuild
            (newReplIndexBuildState bid cid db filteredSpecs proto quorum (numIndexesTotal coll)) s
          = Returned (OK, s1)
      \<and> (setUpStatus = Error IndexAlreadyExists
          \<or> (setUpStatus = Error IndexOptionsConflict \<or> setUpStatus = Error IndexKeySpecsConflict)
             \<and> relax)
      \<longrightarrow> (\<exists>st s2 evs. registerAndSetUpIndexBuild replCoord coll autoColl relax setUpStatus
                    db cid specs bid proto quorum s = Returned (ReadyFuture st, s2, evs)
                 \<and> numIndexesBefore st = numIndexesAfter st
                 \<and> allIndexBuilds s2 = allIndexBuilds s
                 \<and> map_of (allIndexBuilds s2) bid = None
                 \<and> (\<forall>t. map_of (collectionIndexBuilds s2) cid = Some t
                        \<longrightarrow> bid \<notin> set (buildStateByBuildUUID t)
                            \<and> (\<forall>spec \<in> set filteredSpecs. \<not> hasIndexBuildState t (specName spec)))
                 \<and> (\<forall>t. map_of (databaseIndexBuilds s2) db = Some (Some t)
                        \<longrightarrow> bid \<notin> set (dbAllIndexBuilds t))
                 \<and> (registryInvariant s \<longrightarrow> s2 = s)))"
proof (intro conjI impI)
  assume "isOK autoColl \<and> addDefaultsAndFilterExistingIndexes replCoord coll specs = Returned []"
  then show "\<exists>st. registerAndSetUpIndexBuild replCoord coll autoColl relax setUpStatus
                    db cid specs bid proto quorum s = Returned (ReadyFuture st, s, [])
                 \<and> numIndexesBefore st = numIndexesAfter st"
    by (simp add: registerAndSetUpIndexBuild_def Let_def)
next
  let ?r = "newReplIndexBuildState bid cid db filteredSpecs proto quorum (numIndexesTotal coll)"
  assume a: "isOK autoColl
      \<and> addDefaultsAndFilterExistingIndexes replCoord coll specs = Returned filteredSpecs
      \<and> filteredSpecs \<noteq> []
      \<and> registerIndexBuild ?r s = Returned (OK, s1)
      \<and> (setUpStatus = Error IndexAlreadyExists
          \<or> (setUpStatus = Error IndexOptionsConflict \<or> setUpStatus = Error IndexKeySpecsConflict)
             \<and> relax)"
  then have reg: "registerIndexBuild ?r s = Returned (OK, s1)" by simp
  have fields: "buildUUID ?r = bid" "collectionUUID ?r = cid" "dbName ?r = db"
    "indexNames ?r = map specName filteredSpecs"
    by (simp_all add: newReplIndexBuildState_def make_ReplIndexBuildState_def Let_def)
  from unregister_after_register [OF reg] fields obtain s2 where
    un: "unregisterIndexBuild ?r s1 = Returned s2"
    and same: "allIndexBuilds s2 = allIndexBuilds s"
    and gone: "map_of (allIndexBuilds s2) bid = None"
    by auto
  from unregisterIndexBuild_clears_trackers [OF un] fields
  have colls: "\<forall>t. map_of (collectionIndexBuilds s2) cid = Some t
                  \<longrightarrow> bid \<notin> set (buildStateByBuildUUID t)
                      \<and> (\<forall>spec \<in> set filteredSpecs. \<not> hasIndexBuildState t (specName spec))"
    and dbs: "\<forall>t. map_of (databaseIndexBuilds s2) db = Some (Some t)
                  \<longrightarrow> bid \<notin> set (dbAllIndexBuilds t)"
    by simp_all
  have restored: "registryInvariant s \<longrightarrow> s2 = s"
  proof
    assume "registryInvariant s"
    with reg have "unregisterIndexBuild ?r s1 = Returned s"
      by (rule unregister_after_register_restores)
    with un show "s2 = s" by simp
  qed
  from a have notok: "\<not> isOK setUpStatus" by (auto simp add: isOK_def)
  from a reg un notok
  have res: "registerAndSetUpIndexBuild replCoord coll autoColl relax setUpStatus
               db cid specs bid proto quorum s
             = Returned (ReadyFuture \<lparr>numIndexesBefore = numIndexesBefore (stats ?r),
                                       numIndexesAfter = numIndexesBefore (stats ?r)\<rparr>,
                         s2, [ManagerSetUpIndexBuild bid, ManagerTearDownIndexBuild bid None])"
    by (auto simp add: registerAndSetUpIndexBuild_def Let_def bind_outcome_def isOK_def)
  have eq: "numIndexesBefore \<lparr>numIndexesBefore = numIndexesBefore (stats ?r),
                                numIndexesAfter = numIndexesBefore (stats ?r)\<rparr>
            = numIndexesAfter \<lparr>numIndexesBefore = numIndexesBefore (stats ?r),
                                numIndexesAfter = numIndexesBefore (stats ?r)\<rparr>"
    by simp
  from res eq same gone colls dbs restored
  show "\<exists>st s2 evs. registerAndSetUpIndexBuild replCoord coll autoColl relax setUpStatus
                    db cid specs bid proto quorum s = Returned (ReadyFuture st, s2, evs)
                 \<and> numIndexesBefore st = numIndexesAfter st
                 \<and> allIndexBuilds s2 = allIndexBuilds s
                 \<and> map_of (allIndexBuilds s2) bid = None
                 \<and> (\<forall>t. map_of (collectionIndexBuilds s2) cid = Some t
                        \<longrightarrow> bid \<notin> set (buildStateByBuildUUID t)
                            \<and> (\<forall>spec \<in> set filteredSpecs. \<not> hasIndexBuildState t (specName spec)))
                 \<and> (\<forall>t. map_of (databaseIndexBuilds s2) db = Some (Some t)
                        \<longrightarrow> bid \<notin> set (dbAllIndexBuilds t))
                 \<and> (registryInvariant s \<longrightarrow> s2 = s)"
    by blast
qed

theorem setup_short_circuit_witness:
  "isOK OK
   \<and> addDefaultsAndFilterExistingIndexes replPrimary (catalogView [] 3) [specA] = Returned []
   \<and> registerAndSetUpIndexBuild replPrimary (catalogView [] 3) OK False OK
        ''test'' 10 [specA] 2 kTwoPhase None (registered1 build1)
       = Returned (ReadyFuture \<lparr>numIndexesBefore = 3, numIndexesAfter = 3\<rparr>, registered1 build1, [])
   \<and> addDefaultsAndFilterExistingIndexes replPrimary (catalogView [specB] 3) [specA, specB]
       = Returned [specB]
   \<and> (\<exists>s1. registerIndexBuild (newReplIndexBuildState 2 10 ''test'' [specB] kTwoPhase None 3)
              (registered1 build1) = Returned (OK, s1))
   \<and> registryInvariant (registered1 build1)
   \<and> registerAndSetUpIndexBuild replPrimary (catalogView [specB] 3) OK False
        (Error IndexAlreadyExists) ''test'' 10 [specA, specB] 2 kTwoPhase None (registered1 build1)
       = Returned (ReadyFuture \<lparr>numIndexesBefore = 3, numIndexesAfter = 3\<rparr>, registered1 build1,
                   [ManagerSetUpIndexBuild 2, ManagerTearDownIndexBuild 2 None])
   \<and> map_of (collectionIndexBuilds (registered1 build1)) 10
       = Some \<lparr> buildStateByBuildUUID = [1], buildStateByIndexName = [(''a_1'', 1)] \<rparr>
   \<and> map_of (databaseIndexBuilds (registered1 build1)) ''test''
       = Some (Some \<lparr> dbAllIndexBuilds = [1] \<rparr>)"
  using setup_short_circuit_ready_future
          [where autoColl = OK and replCoord = replPrimary and coll = "catalogView [] 3"
             and specs = "[specA]" and relax = False and setUpStatus = OK and db = "''test''"
             and cid = 10 and bid = 2 and proto = kTwoPhase and quorum = None
             and s = "registered1 build1"]
        setup_short_circuit_ready_future
          [where autoColl = OK and replCoord = replPrimary and coll = "catalogView [specB] 3"
             and specs = "[specA, specB]" and relax = False
             and setUpStatus = "Error IndexAlreadyExists" and db = "''test''"
             and cid = 10 and bid = 2 and proto = kTwoPhase and quorum = None
             and s = "registered1 build1" and filteredSpecs = "[specB]"]
  by (simp add: example_defs registry_defs registerAndSetUpIndexBuild_def
      addDefaultsAndFilterExistingIndexes_def checkShardKeyRestrictions_def isOK_def
      registryInvariant_def buildsOfCollection_def buildsOfDatabase_def)

text \<open>
  Claim C4. The claim: every operation keeps the registry and the trackers in step, and a
  tracker entry is in its map exactly when it holds a build. \<^verbatim>\<open>abortDatabaseIndexBuilds\<close>
  breaks it on a database without builds: the subscript it reads the tracker with inserts
  an entry with a null tracker. Evaluated on a coordinator whose only content is the
  blocker of database \<open>test\<close>: after the call and the release of the blocker, the database
  map holds an entry for \<open>test\<close> although no build is registered, \<^verbatim>\<open>inProgForDb\<close> answers
  true, and the destructor fails its first invariant.
\<close>

theorem abortDatabaseIndexBuilds_leaves_empty_entry:
  "bind_outcome
     (abortDatabaseIndexBuilds (\<lambda>_. False) [] ''test'' ''dropDatabase''
        (stopIndexBuildsOnDatabase ''test'' emptyCoordinator))
     (\<lambda>(s1, evs). bind_outcome (allowIndexBuildsOnDatabase ''test'' s1)
        (\<lambda>s2. Returned (databaseIndexBuilds s2, allIndexBuilds s2, inProgForDb ''test'' s2,
                         destroyIndexBuildsCoordinator s2)))
   = Returned ([(''test'', None)], [], True, InvariantFailure)"
  by (simp add: emptyCoordinator_def abortDatabaseIndexBuilds_def stopIndexBuildsOnDatabase_def
      allowIndexBuildsOnDatabase_def subscriptDatabaseIndexBuilds_def inProgForDb_def
      destroyIndexBuildsCoordinator_def bind_outcome_def)

text \<open>
  The sibling \<^verbatim>\<open>abortCollectionIndexBuilds\<close> looks the tracker up with \<^verbatim>\<open>find\<close> and
  leaves a collection without builds as it was.
\<close>

lemma abortCollectionIndexBuilds_without_builds:
  "abortCollectionIndexBuilds (\<lambda>_. False) [] 10 ''drop''
        (stopIndexBuildsOnCollection 10 emptyCoordinator)
   = Returned (stopIndexBuildsOnCollection 10 emptyCoordinator, [])"
  by (simp add: emptyCoordinator_def abortCollectionIndexBuilds_def stopIndexBuildsOnCollection_def)

text \<open>
  Claim C5, as amended. \<^verbatim>\<open>abortIndexBuildByBuildUUID\<close> always returns, and each call
  stamps the record with the commit timestamp of its own operation context. Two calls with
  the same build and reason leave the coordinator in the state the second call alone would
  leave: the record of a registered build ends with \<open>aborted\<close> set, the reason, and the
  timestamp of the second call. This is the state one call leaves when the two calls carry
  the same timestamp, and for a registered build it is a different state when they do not.
\<close>

theorem abort_twice_last_timestamp_wins:
  "stateAfter (bind_outcome (abortIndexBuildByBuildUUID ts1 bid reason s)
                 (\<lambda>(s1, evs). abortIndexBuildByBuildUUID ts2 bid reason s1))
     = stateAfter (abortIndexBuildByBuildUUID ts2 bid reason s)
   \<and> stateAfter (abortIndexBuildByBuildUUID ts2 bid reason s) \<noteq> None
   \<and> (\<forall>replState s'.
        map_of (allIndexBuilds s) bid = Some replState
        \<and> stateAfter (bind_outcome (abortIndexBuildByBuildUUID ts1 bid reason s)
                 (\<lambda>(s1, evs). abortIndexBuildByBuildUUID ts2 bid reason s1)) = Some s'
        \<longrightarrow> map_of (allIndexBuilds s') bid
              = Some (replState\<lparr>aborted := True, abortTimestamp := ts2, abortReason := reason\<rparr>))
   \<and> (ts1 = ts2
        \<longrightarrow> stateAfter (bind_outcome (abortIndexBuildByBuildUUID ts1 bid reason s)
                 (\<lambda>(s1, evs). abortIndexBuildByBuildUUID ts2 bid reason s1))
            = stateAfter (abortIndexBuildByBuildUUID ts1 bid reason s))
   \<and> (ts1 \<noteq> ts2 \<and> map_of (allIndexBuilds s) bid \<noteq> None
        \<longrightarrow> stateAfter (bind_outcome (abortIndexBuildByBuildUUID ts1 bid reason s)
                 (\<lambda>(s1, evs). abortIndexBuildByBuildUUID ts2 bid reason s1))
            \<noteq> stateAfter (abortIndexBuildByBuildUUID ts1 bid reason s))"
proof -
  let ?twice = "stateAfter (bind_outcome (abortIndexBuildByBuildUUID ts1 bid reason s)
                 (\<lambda>(s1, evs). abortIndexBuildByBuildUUID ts2 bid reason s1))"
  have last: "?twice = stateAfter (abortIndexBuildByBuildUUID ts2 bid reason s)"
    by (simp add: abortIndexBuildByBuildUUID_def getIndexBuild_def Let_def bind_outcome_def
        stateAfter_def AList.update_conv' split: option.splits)
  have returns: "stateAfter (abortIndexBuildByBuildUUID ts2 bid reason s) \<noteq> None"
    by (simp add: abortIndexBuildByBuildUUID_def getIndexBuild_def Let_def stateAfter_def
        split: option.splits)
  have once: "\<And>ts replState. map_of (allIndexBuilds s) bid = Some replState \<Longrightarrow>
      stateAfter (abortIndexBuildByBuildUUID ts bid reason s)
        = Some (s\<lparr>allIndexBuilds :=
                    AList.update bid
                      (replState\<lparr>aborted := True, abortTimestamp := ts, abortReason := reason\<rparr>)
                      (allIndexBuilds s)\<rparr>)"
    by (simp add: abortIndexBuildByBuildUUID_def getIndexBuild_def Let_def stateAfter_def)
  have stamped: "\<forall>replState s'.
        map_of (allIndexBuilds s) bid = Some replState \<and> ?twice = Some s'
        \<longrightarrow> map_of (allIndexBuilds s') bid
              = Some (replState\<lparr>aborted := True, abortTimestamp := ts2, abortReason := reason\<rparr>)"
  proof (intro allI impI)
    fix replState s'
    assume a: "map_of (allIndexBuilds s) bid = Some replState \<and> ?twice = Some s'"
    then have r: "map_of (allIndexBuilds s) bid = Some replState" by simp
    from a last once [OF r, of ts2]
    have "s' = s\<lparr>allIndexBuilds :=
                    AList.update bid
                      (replState\<lparr>aborted := True, abortTimestamp := ts2, abortReason := reason\<rparr>)
                      (allIndexBuilds s)\<rparr>"
      by simp
    then show "map_of (allIndexBuilds s') bid
              = Some (replState\<lparr>aborted := True, abortTimestamp := ts2, abortReason := reason\<rparr>)"
      by (simp add: AList.update_conv')
  qed
  have same: "ts1 = ts2 \<longrightarrow> ?twice = stateAfter (abortIndexBuildByBuildUUID ts1 bid reason s)"
  proof
    assume "ts1 = ts2"
    with last show "?twice = stateAfter (abortIndexBuildByBuildUUID ts1 bid reason s)" by simp
  qed
  have differ: "ts1 \<noteq> ts2 \<and> map_of (allIndexBuilds s) bid \<noteq> None
        \<longrightarrow> ?twice \<noteq> stateAfter (abortIndexBuildByBuildUUID ts1 bid reason s)"
  proof (intro impI notI)
    assume a: "ts1 \<noteq> ts2 \<and> map_of (allIndexBuilds s) bid \<noteq> None"
      and e: "?twice = stateAfter (abortIndexBuildByBuildUUID ts1 bid reason s)"
    from a obtain replState where r: "map_of (allIndexBuilds s) bid = Some replState" by auto
    from e last once [OF r, of ts1] once [OF r, of ts2]
    have "s\<lparr>allIndexBuilds :=
                    AList.update bid
                      (replState\<lparr>aborted := True, abortTimestamp := ts2, abortReason := reason\<rparr>)
                      (allIndexBuilds s)\<rparr>
          = s\<lparr>allIndexBuilds :=
                    AList.update bid
                      (replState\<lparr>aborted := True, abortTimestamp := ts1, abortReason := reason\<rparr>)
                      (allIndexBuilds s)\<rparr>"
      by simp
    from arg_cong [OF this, of allIndexBuilds]
    have "AList.update bid
                      (replState\<lparr>aborted := True, abortTimestamp := ts2, abortReason := reason\<rparr>)
                      (allIndexBuilds s)
             = AList.update bid
                      (replState\<lparr>aborted := True, abortTimestamp := ts1, abortReason := reason\<rparr>)
                      (allIndexBuilds s)"
      by simp
    from arg_cong [OF this, of "\<lambda>al. map_of al bid"]
    have "Some (replState\<lparr>aborted := True, abortTimestamp := ts2, abortReason := reason\<rparr>)
          = Some (replState\<lparr>aborted := True, abortTimestamp := ts1, abortReason := reason\<rparr>)"
      by (simp only: AList.update_conv' fun_upd_same)
    then have "abortTimestamp (replState\<lparr>aborted := True, abortTimestamp := ts2, abortReason := reason\<rparr>)
          = abortTimestamp (replState\<lparr>aborted := True, abortTimestamp := ts1, abortReason := reason\<rparr>)"
      by (simp only: option.inject)
    with a show False by simp
  qed
  show ?thesis
  proof (intro conjI)
    show "?twice = stateAfter (abortIndexBuildByBuildUUID ts2 bid reason s)" by (rule last)
    show "stateAfter (abortIndexBuildByBuildUUID ts2 bid reason s) \<noteq> None" by (rule returns)
    show "\<forall>replState s'.
        map_of (allIndexBuilds s) bid = Some replState \<and> ?twice = Some s'
        \<longrightarrow> map_of (allIndexBuilds s') bid
              = Some (replState\<lparr>aborted := True, abortTimestamp := ts2, abortReason := reason\<rparr>)"
      by (rule stamped)
    show "ts1 = ts2 \<longrightarrow> ?twice = stateAfter (abortIndexBuildByBuildUUID ts1 bid reason s)"
      by (rule same)
    show "ts1 \<noteq> ts2 \<and> map_of (allIndexBuilds s) bid \<noteq> None
        \<longrightarrow> ?twice \<noteq> stateAfter (abortIndexBuildByBuildUUID ts1 bid reason s)"
      by (rule differ)
  qed
qed

theorem abort_twice_witness:
  "map_of (allIndexBuilds (registered1 build1)) 1 = Some build1
   \<and> stateAfter (bind_outcome (abortIndexBuildByBuildUUID 7 1 ''dropped'' (registered1 build1))
                 (\<lambda>(s1, evs). abortIndexBuildByBuildUUID 9 1 ''dropped'' s1))
       = Some (registered1 (build1\<lparr>aborted := True, abortTimestamp := 9, abortReason := ''dropped''\<rparr>))
   \<and> map_of (allIndexBuilds
         (registered1 (build1\<lparr>aborted := True, abortTimestamp := 9, abortReason := ''dropped''\<rparr>))) 1
       = Some (build1\<lparr>aborted := True, abortTimestamp := 9, abortReason := ''dropped''\<rparr>)
   \<and> stateAfter (bind_outcome (abortIndexBuildByBuildUUID 7 1 ''dropped'' (registered1 build1))
                 (\<lambda>(s1, evs). abortIndexBuildByBuildUUID 7 1 ''dropped'' s1))
       = stateAfter (abortIndexBuildByBuildUUID 7 1 ''dropped'' (registered1 build1))
   \<and> stateAfter (bind_outcome (abortIndexBuildByBuildUUID 7 1 ''dropped'' (registered1 build1))
                 (\<lambda>(s1, evs). abortIndexBuildByBuildUUID 9 1 ''dropped'' s1))
       \<noteq> stateAfter (abortIndexBuildByBuildUUID 7 1 ''dropped'' (registered1 build1))"
proof -
  let ?s = "registered1 build1"
  let ?twice79 = "stateAfter (bind_outcome (abortIndexBuildByBuildUUID 7 1 ''dropped'' ?s)
                    (\<lambda>(s1, evs). abortIndexBuildByBuildUUID 9 1 ''dropped'' s1))"
  let ?twice77 = "stateAfter (bind_outcome (abortIndexBuildByBuildUUID 7 1 ''dropped'' ?s)
                    (\<lambda>(s1, evs). abortIndexBuildByBuildUUID 7 1 ''dropped'' s1))"
  let ?s9 = "registered1 (build1\<lparr>aborted := True, abortTimestamp := 9, abortReason := ''dropped''\<rparr>)"
  have r: "map_of (allIndexBuilds ?s) 1 = Some build1"
    by (simp add: registered1_def)
  have v9: "stateAfter (abortIndexBuildByBuildUUID 9 1 ''dropped'' ?s) = Some ?s9"
    by (simp add: registered1_def abortIndexBuildByBuildUUID_def getIndexBuild_def stateAfter_def)
  note t79 = abort_twice_last_timestamp_wins [of 7 1 "''dropped''" ?s 9]
  note t77 = abort_twice_last_timestamp_wins [of 7 1 "''dropped''" ?s 7]
  from t79 v9 have c1: "?twice79 = Some ?s9" by simp
  from t79 have "\<forall>replState s'.
        map_of (allIndexBuilds ?s) 1 = Some replState \<and> ?twice79 = Some s'
        \<longrightarrow> map_of (allIndexBuilds s') 1
              = Some (replState\<lparr>aborted := True, abortTimestamp := 9, abortReason := ''dropped''\<rparr>)"
    by (rule conjunct2 [THEN conjunct2, THEN conjunct1])
  with r c1 have c2: "map_of (allIndexBuilds ?s9) 1
       = Some (build1\<lparr>aborted := True, abortTimestamp := 9, abortReason := ''dropped''\<rparr>)"
    by blast
  from t77 have "(7::nat) = 7
        \<longrightarrow> ?twice77 = stateAfter (abortIndexBuildByBuildUUID 7 1 ''dropped'' ?s)"
    by (rule conjunct2 [THEN conjunct2, THEN conjunct2, THEN conjunct1])
  then have c3: "?twice77 = stateAfter (abortIndexBuildByBuildUUID 7 1 ''dropped'' ?s)" by simp
  from t79 have "(7::nat) \<noteq> 9 \<and> map_of (allIndexBuilds ?s) 1 \<noteq> None
        \<longrightarrow> ?twice79 \<noteq> stateAfter (abortIndexBuildByBuildUUID 7 1 ''dropped'' ?s)"
    by (rule conjunct2 [THEN conjunct2, THEN conjunct2, THEN conjunct2])
  with r have c4: "?twice79 \<noteq> stateAfter (abortIndexBuildByBuildUUID 7 1 ''dropped'' ?s)" by simp
  from r c1 c2 c3 c4 show ?thesis by (intro conjI)
qed

text \<open>
  Claim C5 as stated fails: build 1 is aborted from an operation context whose commit
  timestamp is 7 and then, with the same reason, from one whose commit timestamp is 9. The
  record ends with the abort timestamp 9, where a single call leaves 7.
\<close>

theorem abort_twice_with_later_timestamp_differs:
  "stateAfter (bind_outcome (abortIndexBuildByBuildUUID 7 1 ''dropped'' (registered1 build1))
                 (\<lambda>(s1, evs). abortIndexBuildByBuildUUID 9 1 ''dropped'' s1))
     = Some (registered1 (build1\<lparr>aborted := True, abortTimestamp := 9, abortReason := ''dropped''\<rparr>))
   \<and> stateAfter (abortIndexBuildByBuildUUID 7 1 ''dropped'' (registered1 build1))
     = Some (registered1 (build1\<lparr>aborted := True, abortTimestamp := 7, abortReason := ''dropped''\<rparr>))
   \<and> map (abortTimestamp \<circ> snd)
         (allIndexBuilds (registered1
            (build1\<lparr>aborted := True, abortTimestamp := 9, abortReason := ''dropped''\<rparr>))) = [9]
   \<and> map (abortTimestamp \<circ> snd)
         (allIndexBuilds (registered1
            (build1\<lparr>aborted := True, abortTimestamp := 7, abortReason := ''dropped''\<rparr>))) = [7]"
  by (simp add: registered1_def abortIndexBuildByBuildUUID_def getIndexBuild_def stateAfter_def
      bind_outcome_def)

text \<open>
  Claim C6, as amended. When every registered build is aborted, or is neither ready to
  commit nor stamped with a commit timestamp, \<^verbatim>\<open>onStepUp\<close> returns: it sets \<open>isCommitReady\<close>
  on each build that is not aborted and broadcasts on it, and leaves each aborted build
  unchanged, without a broadcast. When every registered build is aborted, or is neither
  ready to commit nor stamped with an abort timestamp, \<^verbatim>\<open>onRollback\<close> returns: it sets
  \<open>aborted\<close> with reason \<open>rollback\<close> on each build that is not aborted, leaving its abort
  timestamp null, and broadcasts on it, and leaves each aborted build unchanged. A build
  that is ready to commit and not aborted makes \<^verbatim>\<open>onStepUp\<close> fail its invariant.
\<close>

theorem onStepUp_onRollback_effect:
  "((\<forall>(k, r) \<in> set (allIndexBuilds s).
        aborted r \<or> (\<not> isCommitReady r \<and> isNull (commitTimestamp r)))
     \<longrightarrow> onStepUp s =
           Returned (s\<lparr>allIndexBuilds :=
                         map (\<lambda>(k, r). (k, if aborted r then r else r\<lparr>isCommitReady := True\<rparr>))
                           (allIndexBuilds s)\<rparr>,
                     map (\<lambda>(k, r). NotifyAll (buildUUID r))
                       (filter (\<lambda>(k, r). \<not> aborted r) (allIndexBuilds s))))
   \<and> ((\<forall>(k, r) \<in> set (allIndexBuilds s).
        aborted r \<or> (\<not> isCommitReady r \<and> isNull (abortTimestamp r)))
     \<longrightarrow> onRollback s =
           Returned (s\<lparr>allIndexBuilds :=
                         map (\<lambda>(k, r). (k, if aborted r then r
                                            else r\<lparr>aborted := True, abortReason := ''rollback''\<rparr>))
                           (allIndexBuilds s)\<rparr>,
                     map (\<lambda>(k, r). NotifyAll (buildUUID r))
                       (filter (\<lambda>(k, r). \<not> aborted r) (allIndexBuilds s))))
   \<and> ((\<exists>(k, r) \<in> set (allIndexBuilds s). \<not> aborted r \<and> isCommitReady r)
     \<longrightarrow> onStepUp s = InvariantFailure)"
proof (intro conjI impI)
  assume "\<forall>(k, r) \<in> set (allIndexBuilds s).
            aborted r \<or> (\<not> isCommitReady r \<and> isNull (commitTimestamp r))"
  then show "onStepUp s =
           Returned (s\<lparr>allIndexBuilds :=
                         map (\<lambda>(k, r). (k, if aborted r then r else r\<lparr>isCommitReady := True\<rparr>))
                           (allIndexBuilds s)\<rparr>,
                     map (\<lambda>(k, r). NotifyAll (buildUUID r))
                       (filter (\<lambda>(k, r). \<not> aborted r) (allIndexBuilds s)))"
    by (simp add: onStepUp_def forEach_onStepUp bind_outcome_def)
next
  assume "\<forall>(k, r) \<in> set (allIndexBuilds s).
            aborted r \<or> (\<not> isCommitReady r \<and> isNull (abortTimestamp r))"
  then show "onRollback s =
           Returned (s\<lparr>allIndexBuilds :=
                         map (\<lambda>(k, r). (k, if aborted r then r
                                            else r\<lparr>aborted := True, abortReason := ''rollback''\<rparr>))
                           (allIndexBuilds s)\<rparr>,
                     map (\<lambda>(k, r). NotifyAll (buildUUID r))
                       (filter (\<lambda>(k, r). \<not> aborted r) (allIndexBuilds s)))"
    by (simp add: onRollback_def forEach_onRollback bind_outcome_def)
next
  assume "\<exists>(k, r) \<in> set (allIndexBuilds s). \<not> aborted r \<and> isCommitReady r"
  then show "onStepUp s = InvariantFailure"
    by (simp add: onStepUp_def forEach_onStepUp_commit_ready bind_outcome_def)
qed

theorem onStepUp_onRollback_effect_witness:
  "allIndexBuilds (registered12 build1 (build3\<lparr>aborted := True, abortReason := ''dropped''\<rparr>))
     = [(1, build1), (3, build3\<lparr>aborted := True, abortReason := ''dropped''\<rparr>)]
   \<and> \<not> aborted build1 \<and> \<not> isCommitReady build1
   \<and> isNull (commitTimestamp build1) \<and> isNull (abortTimestamp build1)
   \<and> aborted (build3\<lparr>aborted := True, abortReason := ''dropped''\<rparr>)
   \<and> onStepUp (registered12 build1 (build3\<lparr>aborted := True, abortReason := ''dropped''\<rparr>))
       = Returned (registered12 (build1\<lparr>isCommitReady := True\<rparr>)
                     (build3\<lparr>aborted := True, abortReason := ''dropped''\<rparr>), [NotifyAll 1])
   \<and> onRollback (registered12 build1 (build3\<lparr>aborted := True, abortReason := ''dropped''\<rparr>))
       = Returned (registered12 (build1\<lparr>aborted := True, abortReason := ''rollback''\<rparr>)
                     (build3\<lparr>aborted := True, abortReason := ''dropped''\<rparr>), [NotifyAll 1])
   \<and> abortTimestamp (build1\<lparr>aborted := True, abortReason := ''rollback''\<rparr>) = 0
   \<and> allIndexBuilds (registered1 (build1\<lparr>isCommitReady := True\<rparr>))
       = [(1, build1\<lparr>isCommitReady := True\<rparr>)]
   \<and> \<not> aborted (build1\<lparr>isCommitReady := True\<rparr>) \<and> isCommitReady (build1\<lparr>isCommitReady := True\<rparr>)
   \<and> onStepUp (registered1 (build1\<lparr>isCommitReady := True\<rparr>)) = InvariantFailure"
  using onStepUp_onRollback_effect
          [of "registered12 build1 (build3\<lparr>aborted := True, abortReason := ''dropped''\<rparr>)"]
        onStepUp_onRollback_effect [of "registered1 (build1\<lparr>isCommitReady := True\<rparr>)"]
  by (simp add: example_defs isNull_def)

text \<open>
  Claim C6 as stated fails: after one \<^verbatim>\<open>onStepUp\<close> build 1 is ready to commit, and a second
  \<^verbatim>\<open>onStepUp\<close> does not leave it unchanged but fails the invariant
  \<^verbatim>\<open>!replState->isCommitReady\<close>.
\<close>

theorem onStepUp_twice_fails:
  "onStepUp (registered1 build1) = Returned (registered1 (build1\<lparr>isCommitReady := True\<rparr>), [NotifyAll 1])
   \<and> isCommitReady (build1\<lparr>isCommitReady := True\<rparr>)
   \<and> onStepUp (registered1 (build1\<lparr>isCommitReady := True\<rparr>)) = InvariantFailure"
  by (simp add: example_defs signal_defs)

text \<open>
  Claim C7, as amended. A two-phase build on a replica-set node that does not accept
  writes for the namespace, both when the first part fails and at the wait. A failure of
  the scan or of the first two drains that is an interruption at shutdown is thrown again
  at once. Any other failure does not end the build: the error is held and the driver waits
  (it is blocked while neither flag is set). When the wait ends with \<open>isCommitReady\<close>, the
  held error is thrown; \<^verbatim>\<open>_runIndexBuildInner\<close> then ends the process when the build was
  started as a secondary (\<^verbatim>\<open>replSetAndNotPrimaryAtStart\<close>) and passes the error on to its
  caller when it was not. When the wait ends with \<open>aborted\<close>, the held error is dropped: the
  driver goes on to the last phase with a null timestamp, its result does not depend on
  the held error, and when the last phase reports the abort, \<^verbatim>\<open>_runIndexBuildInner\<close> of a
  build started as a secondary returns after tearing the build down at the abort
  timestamp.
\<close>

theorem two_phase_secondary_failure_is_held:
  assumes "usingReplSets replAtCatch \<and> \<not> canAcceptWritesFor replAtCatch"
    and "usingReplSets replAtWait \<and> \<not> canAcceptWritesFor replAtWait"
    and "protocol replState = kTwoPhase"
    and "scanAndFirstDrains phases = Thrown ex"
  shows "(ex = Error InterruptedAtShutdown
            \<longrightarrow> buildIndexTwoPhase params replAtCatch replAtWait replAtCommit OK atStart phases replState
                  = Thrown ex)
       \<and> (ex \<noteq> Error InterruptedAtShutdown \<and> \<not> isCommitReady replState \<and> \<not> aborted replState
            \<longrightarrow> buildIndexTwoPhase params replAtCatch replAtWait replAtCommit OK atStart phases replState
                  = Blocked)
       \<and> (ex \<noteq> Error InterruptedAtShutdown \<and> isCommitReady replState \<and> \<not> aborted replState
            \<longrightarrow> buildIndexTwoPhase params replAtCatch replAtWait replAtCommit OK atStart phases replState
                  = Thrown ex
              \<and> runIndexBuildInner True replAtCleanup numIndexes
                   (buildIndexTwoPhase params replAtCatch replAtWait replAtCommit OK True phases replState)
                   replState
                  = InvariantFailure
              \<and> runIndexBuildInner False replAtCleanup numIndexes
                   (buildIndexTwoPhase params replAtCatch replAtWait replAtCommit OK False phases replState)
                   replState
                  = Thrown ex)
       \<and> (ex \<noteq> Error InterruptedAtShutdown \<and> aborted replState \<and> \<not> isCommitReady replState
            \<longrightarrow> buildIndexTwoPhase params replAtCatch replAtWait replAtCommit OK atStart phases replState
                  = insertKeysFromSideTablesAndCommit params replAtCommit atStart phases replState 0)
       \<and> (ex \<noteq> Error InterruptedAtShutdown \<and> aborted replState \<and> \<not> isCommitReady replState
          \<and> insertKeysFromSideTablesAndCommit params replAtCommit True phases replState 0
              = Thrown (Error IndexBuildAborted)
            \<longrightarrow> runIndexBuildInner True replAtCleanup numIndexes
                   (buildIndexTwoPhase params replAtCatch replAtWait replAtCommit OK True phases replState)
                   replState
                  = Returned (replState,
                              [ManagerTearDownIndexBuild (buildUUID replState)
                                 (Some (abortTimestamp replState))]))"
proof -
  from assms(4) have nok: "ex \<noteq> OK" by (rule scanAndFirstDrains_thrown_not_OK)
  have wait: "shouldWaitForCommitOrAbort replAtWait replState"
    using assms(2,3) by (simp add: shouldWaitForCommitOrAbort_def)
  have shutdown: "ex = Error InterruptedAtShutdown
      \<longrightarrow> buildIndexTwoPhase params replAtCatch replAtWait replAtCommit OK atStart phases replState
            = Thrown ex"
    using assms(1,4) by (simp add: buildIndexTwoPhase_def holdOrRethrow_def bind_outcome_def)
  have body: "\<And>atStart. ex \<noteq> Error InterruptedAtShutdown \<Longrightarrow>
      buildIndexTwoPhase params replAtCatch replAtWait replAtCommit OK atStart phases replState =
      bind_outcome (waitForCommitOrAbort replAtWait OK replState ex)
        (\<lambda>ts. insertKeysFromSideTablesAndCommit params replAtCommit atStart phases replState ts)"
    using assms(1,4) by (simp add: buildIndexTwoPhase_def holdOrRethrow_def bind_outcome_def)
  have blocked: "\<not> isCommitReady replState \<and> \<not> aborted replState
      \<longrightarrow> waitForCommitOrAbort replAtWait OK replState ex = Blocked"
    using wait by (simp add: waitForCommitOrAbort_def isOK_def)
  have thrown: "isCommitReady replState \<and> \<not> aborted replState
      \<longrightarrow> waitForCommitOrAbort replAtWait OK replState ex = Thrown ex"
    using wait nok
    by (simp add: waitForCommitOrAbort_def uassertStatusOK_def withContext_def isOK_def
        bind_outcome_def)
  have dropped: "aborted replState \<and> \<not> isCommitReady replState
      \<longrightarrow> waitForCommitOrAbort replAtWait OK replState ex = Returned 0"
    using wait by (simp add: waitForCommitOrAbort_def isOK_def)
  have fatal: "ex \<noteq> Error InterruptedAtShutdown \<and> \<not> aborted replState
      \<longrightarrow> runIndexBuildInner True replAtCleanup numIndexes (Thrown ex) replState = InvariantFailure"
    by (simp add: runIndexBuildInner_def cleanUpFailedIndexBuild_def bind_outcome_def)
  have passed: "ex \<noteq> Error InterruptedAtShutdown
      \<longrightarrow> runIndexBuildInner False replAtCleanup numIndexes (Thrown ex) replState = Thrown ex"
    by (simp add: runIndexBuildInner_def cleanUpFailedIndexBuild_def bind_outcome_def)
  have torn: "aborted replState
      \<longrightarrow> runIndexBuildInner True replAtCleanup numIndexes (Thrown (Error IndexBuildAborted)) replState
            = Returned (replState,
                        [ManagerTearDownIndexBuild (buildUUID replState)
                           (Some (abortTimestamp replState))])"
    by (simp add: runIndexBuildInner_def cleanUpFailedIndexBuild_def bind_outcome_def)
  show ?thesis
    using shutdown blocked thrown dropped fatal passed torn
    by (auto simp add: body bind_outcome_def)
qed

theorem two_phase_secondary_failure_witness:
  "usingReplSets replSecondary \<and> \<not> canAcceptWritesFor replSecondary
   \<and> protocol build1 = kTwoPhase
   \<and> scanAndFirstDrains (phasesAllOK\<lparr>startBuildingIndex := Error InterruptedAtShutdown\<rparr>)
       = Thrown (Error InterruptedAtShutdown)
   \<and> buildIndexTwoPhase paramsUpgraded replSecondary replSecondary replSecondary OK True
        (phasesAllOK\<lparr>startBuildingIndex := Error InterruptedAtShutdown\<rparr>) build1
       = Thrown (Error InterruptedAtShutdown)
   \<and> scanAndFirstDrains (phasesAllOK\<lparr>drainFirst := Error DuplicateKey\<rparr>) = Thrown (Error DuplicateKey)
   \<and> buildIndexTwoPhase paramsUpgraded replSecondary replSecondary replSecondary OK True
        (phasesAllOK\<lparr>drainFirst := Error DuplicateKey\<rparr>) build1 = Blocked
   \<and> buildIndexTwoPhase paramsUpgraded replSecondary replSecondary replSecondary OK True
        (phasesAllOK\<lparr>drainFirst := Error DuplicateKey\<rparr>)
        (build1\<lparr>isCommitReady := True, commitTimestamp := 100\<rparr>) = Thrown (Error DuplicateKey)
   \<and> runIndexBuildInner True replSecondary 4
        (buildIndexTwoPhase paramsUpgraded replSecondary replSecondary replSecondary OK True
           (phasesAllOK\<lparr>drainFirst := Error DuplicateKey\<rparr>)
           (build1\<lparr>isCommitReady := True, commitTimestamp := 100\<rparr>))
        (build1\<lparr>isCommitReady := True, commitTimestamp := 100\<rparr>) = InvariantFailure
   \<and> runIndexBuildInner False replSecondary 4
        (buildIndexTwoPhase paramsUpgraded replSecondary replSecondary replSecondary OK False
           (phasesAllOK\<lparr>drainFirst := Error DuplicateKey\<rparr>)
           (build1\<lparr>isCommitReady := True, commitTimestamp := 100\<rparr>))
        (build1\<lparr>isCommitReady := True, commitTimestamp := 100\<rparr>) = Thrown (Error DuplicateKey)
   \<and> scanAndFirstDrains
        (phasesAllOK\<lparr>drainFirst := Error DuplicateKey, drainThird := Error IndexBuildAborted\<rparr>)
       = Thrown (Error DuplicateKey)
   \<and> buildIndexTwoPhase paramsUpgraded replSecondary replSecondary replSecondary OK True
        (phasesAllOK\<lparr>drainFirst := Error DuplicateKey, drainThird := Error IndexBuildAborted\<rparr>)
        (build1\<lparr>aborted := True, abortTimestamp := 200, abortReason := ''dropped''\<rparr>)
       = Thrown (Error IndexBuildAborted)
   \<and> runIndexBuildInner True replSecondary 4
        (buildIndexTwoPhase paramsUpgraded replSecondary replSecondary replSecondary OK True
           (phasesAllOK\<lparr>drainFirst := Error DuplicateKey, drainThird := Error IndexBuildAborted\<rparr>)
           (build1\<lparr>aborted := True, abortTimestamp := 200, abortReason := ''dropped''\<rparr>))
        (build1\<lparr>aborted := True, abortTimestamp := 200, abortReason := ''dropped''\<rparr>)
       = Returned (build1\<lparr>aborted := True, abortTimestamp := 200, abortReason := ''dropped''\<rparr>,
                   [ManagerTearDownIndexBuild 1 (Some 200)])
   \<and> buildIndexTwoPhase paramsUpgraded replSecondary replSecondary replSecondary OK True
        (phasesAllOK\<lparr>drainFirst := Error DuplicateKey\<rparr>)
        (build1\<lparr>aborted := True, abortTimestamp := 200, abortReason := ''dropped''\<rparr>)
       = InvariantFailure"
proof -
  let ?held = "phasesAllOK\<lparr>drainFirst := Error DuplicateKey\<rparr>"
  let ?heldAborted = "phasesAllOK\<lparr>drainFirst := Error DuplicateKey, drainThird := Error IndexBuildAborted\<rparr>"
  let ?shut = "phasesAllOK\<lparr>startBuildingIndex := Error InterruptedAtShutdown\<rparr>"
  let ?ready = "build1\<lparr>isCommitReady := True, commitTimestamp := 100\<rparr>"
  let ?aborted = "build1\<lparr>aborted := True, abortTimestamp := 200, abortReason := ''dropped''\<rparr>"
  have h1: "usingReplSets replSecondary \<and> \<not> canAcceptWritesFor replSecondary"
    by (simp add: replSecondary_def)
  have s0: "scanAndFirstDrains ?shut = Thrown (Error InterruptedAtShutdown)"
    by (simp add: phasesAllOK_def driver_defs)
  have s1: "scanAndFirstDrains ?held = Thrown (Error DuplicateKey)"
    by (simp add: phasesAllOK_def driver_defs)
  have s2: "scanAndFirstDrains ?heldAborted = Thrown (Error DuplicateKey)"
    by (simp add: phasesAllOK_def driver_defs)
  have ne: "Error DuplicateKey \<noteq> Error InterruptedAtShutdown" by simp
  have p1: "protocol build1 = kTwoPhase" by (simp add: example_defs)
  have p2: "protocol ?ready = kTwoPhase" by (simp add: example_defs)
  have p3: "protocol ?aborted = kTwoPhase" by (simp add: example_defs)
  have f1: "\<not> isCommitReady build1 \<and> \<not> aborted build1"
    by (simp add: example_defs)
  have f2: "isCommitReady ?ready \<and> \<not> aborted ?ready"
    by (simp add: example_defs)
  have f3: "aborted ?aborted \<and> \<not> isCommitReady ?aborted"
    by (simp add: example_defs)
  have fields: "buildUUID ?aborted = 1" "abortTimestamp ?aborted = 200"
    by (simp_all add: example_defs)
  have fin1: "insertKeysFromSideTablesAndCommit paramsUpgraded replSecondary True ?heldAborted ?aborted 0
              = Thrown (Error IndexBuildAborted)"
    by (simp add: phasesAllOK_def insertKeysFromSideTablesAndCommit_def uassertStatusOK_def
        isOK_def bind_outcome_def)
  have fin2: "insertKeysFromSideTablesAndCommit paramsUpgraded replSecondary True ?held ?aborted 0
              = InvariantFailure"
    by (simp add: example_defs driver_defs)
  from two_phase_secondary_failure_is_held
         [OF h1 h1 p1 s0, of paramsUpgraded replSecondary True replSecondary 4]
  have c0: "buildIndexTwoPhase paramsUpgraded replSecondary replSecondary replSecondary OK True
              ?shut build1 = Thrown (Error InterruptedAtShutdown)"
    by blast
  from two_phase_secondary_failure_is_held
         [OF h1 h1 p1 s1, of paramsUpgraded replSecondary True replSecondary 4] f1 ne
  have c1: "buildIndexTwoPhase paramsUpgraded replSecondary replSecondary replSecondary OK True
              ?held build1 = Blocked"
    by blast
  from two_phase_secondary_failure_is_held
         [OF h1 h1 p2 s1, of paramsUpgraded replSecondary True replSecondary 4] f2 ne
  have c2: "buildIndexTwoPhase paramsUpgraded replSecondary replSecondary replSecondary OK True
              ?held ?ready = Thrown (Error DuplicateKey)
            \<and> runIndexBuildInner True replSecondary 4
                (buildIndexTwoPhase paramsUpgraded replSecondary replSecondary replSecondary OK True
                   ?held ?ready) ?ready = InvariantFailure
            \<and> runIndexBuildInner False replSecondary 4
                (buildIndexTwoPhase paramsUpgraded replSecondary replSecondary replSecondary OK False
                   ?held ?ready) ?ready = Thrown (Error DuplicateKey)"
    by blast
  note t3 = two_phase_secondary_failure_is_held
              [OF h1 h1 p3 s2, of paramsUpgraded replSecondary True replSecondary 4]
  from t3 f3 ne
  have "buildIndexTwoPhase paramsUpgraded replSecondary replSecondary replSecondary OK True
              ?heldAborted ?aborted
        = insertKeysFromSideTablesAndCommit paramsUpgraded replSecondary True ?heldAborted ?aborted 0"
    by blast
  from this fin1
  have c3a: "buildIndexTwoPhase paramsUpgraded replSecondary replSecondary replSecondary OK True
              ?heldAborted ?aborted = Thrown (Error IndexBuildAborted)"
    by (rule trans)
  from t3 f3 ne fin1
  have "runIndexBuildInner True replSecondary 4
                (buildIndexTwoPhase paramsUpgraded replSecondary replSecondary replSecondary OK True
                   ?heldAborted ?aborted) ?aborted
              = Returned (?aborted,
                          [ManagerTearDownIndexBuild (buildUUID ?aborted)
                             (Some (abortTimestamp ?aborted))])"
    by blast
  then
  have c3b: "runIndexBuildInner True replSecondary 4
                (buildIndexTwoPhase paramsUpgraded replSecondary replSecondary replSecondary OK True
                   ?heldAborted ?aborted) ?aborted
              = Returned (?aborted, [ManagerTearDownIndexBuild 1 (Some 200)])"
    by (simp only: fields)
  note t4 = two_phase_secondary_failure_is_held
              [OF h1 h1 p3 s1, of paramsUpgraded replSecondary True replSecondary 4]
  from t4 f3 ne
  have "buildIndexTwoPhase paramsUpgraded replSecondary replSecondary replSecondary OK True
              ?held ?aborted
        = insertKeysFromSideTablesAndCommit paramsUpgraded replSecondary True ?held ?aborted 0"
    by blast
  from this fin2
  have c4: "buildIndexTwoPhase paramsUpgraded replSecondary replSecondary replSecondary OK True
              ?held ?aborted = InvariantFailure"
    by (rule trans)
  from h1 p1 s0 s1 s2 c0 c1 c2 c3a c3b c4 show ?thesis by blast
qed

text \<open>
  Claim C7 as stated fails twice on such a node. A failure of the scan that is an
  interruption at shutdown is not held: it is thrown again at once, and the driver never
  waits. And the held error that a commit signal surfaces is not fatal for a build that was
  not started as a secondary: \<^verbatim>\<open>_runIndexBuildInner\<close> throws it to its caller, which makes it
  the result of the build.
\<close>

theorem shutdown_not_held_and_commit_not_always_fatal:
  "usingReplSets replSecondary \<and> \<not> canAcceptWritesFor replSecondary
   \<and> protocol build1 = kTwoPhase
   \<and> scanAndFirstDrains (phasesAllOK\<lparr>startBuildingIndex := Error InterruptedAtShutdown\<rparr>)
       = Thrown (Error InterruptedAtShutdown)
   \<and> buildIndexTwoPhase paramsUpgraded replSecondary replSecondary replSecondary OK True
        (phasesAllOK\<lparr>startBuildingIndex := Error InterruptedAtShutdown\<rparr>) build1
       = Thrown (Error InterruptedAtShutdown)
   \<and> scanAndFirstDrains (phasesAllOK\<lparr>drainFirst := Error DuplicateKey\<rparr>) = Thrown (Error DuplicateKey)
   \<and> isCommitReady (build1\<lparr>isCommitReady := True, commitTimestamp := 100\<rparr>)
   \<and> runIndexBuildInner False replSecondary 4
        (buildIndexTwoPhase paramsUpgraded replSecondary replSecondary replSecondary OK False
           (phasesAllOK\<lparr>drainFirst := Error DuplicateKey\<rparr>)
           (build1\<lparr>isCommitReady := True, commitTimestamp := 100\<rparr>))
        (build1\<lparr>isCommitReady := True, commitTimestamp := 100\<rparr>) = Thrown (Error DuplicateKey)"
  by (simp add: example_defs driver_defs)

text \<open>
  Claim C8, as amended. When the driver has to wait and the wait ends with \<open>isCommitReady\<close>
  set and \<open>aborted\<close> clear, \<^verbatim>\<open>_waitForCommitOrAbort\<close> returns the record's
  \<open>commitTimestamp\<close>, which is the one \<^verbatim>\<open>commitIndexBuild\<close> stamped, when no error of an
  earlier phase is held, and throws the held error when there is one. When the wait ends
  with \<open>aborted\<close> set and \<open>isCommitReady\<close> clear it returns the null timestamp, whatever
  error is held. When the build is not two-phase, or replication is not in use, or the node
  accepts writes for the namespace, it does not wait and returns the null timestamp.
\<close>

theorem waitForCommitOrAbort_result:
  "(shouldWaitForCommitOrAbort replCoord replState \<and> isOK waitStatus
      \<and> isCommitReady replState \<and> \<not> aborted replState \<and> isOK preAbortStatus
     \<longrightarrow> waitForCommitOrAbort replCoord waitStatus replState preAbortStatus
          = Returned (commitTimestamp replState))
   \<and> (shouldWaitForCommitOrAbort replCoord replState \<and> isOK waitStatus
      \<and> isCommitReady replState \<and> \<not> aborted replState \<and> \<not> isOK preAbortStatus
     \<longrightarrow> waitForCommitOrAbort replCoord waitStatus replState preAbortStatus
          = Thrown preAbortStatus)
   \<and> (shouldWaitForCommitOrAbort replCoord replState \<and> isOK waitStatus
      \<and> aborted replState \<and> \<not> isCommitReady replState
     \<longrightarrow> waitForCommitOrAbort replCoord waitStatus replState preAbortStatus = Returned 0)
   \<and> (protocol replState \<noteq> kTwoPhase \<or> \<not> usingReplSets replCoord \<or> canAcceptWritesFor replCoord
     \<longrightarrow> \<not> shouldWaitForCommitOrAbort replCoord replState
         \<and> waitForCommitOrAbort replCoord waitStatus replState preAbortStatus = Returned 0)
   \<and> (commitIndexBuild opCtxTs specs bid s = Returned (s', evs)
     \<longrightarrow> (\<exists>r. map_of (allIndexBuilds s') bid = Some r
              \<and> isCommitReady r \<and> commitTimestamp r = opCtxTs))"
  by (auto simp add: waitForCommitOrAbort_def shouldWaitForCommitOrAbort_def uassertStatusOK_def
      withContext_def isOK_def bind_outcome_def commitIndexBuild_def getIndexBuild_def Let_def
      AList.update_conv' split: option.splits if_splits)

theorem waitForCommitOrAbort_result_witness:
  "commitIndexBuild 100 [specA] 1 (registered1 build1)
     = Returned (registered1 (build1\<lparr>isCommitReady := True, commitTimestamp := 100\<rparr>), [NotifyAll 1])
   \<and> shouldWaitForCommitOrAbort replSecondary (build1\<lparr>isCommitReady := True, commitTimestamp := 100\<rparr>)
   \<and> waitForCommitOrAbort replSecondary OK (build1\<lparr>isCommitReady := True, commitTimestamp := 100\<rparr>) OK
       = Returned 100
   \<and> \<not> isOK (Error DuplicateKey)
   \<and> waitForCommitOrAbort replSecondary OK (build1\<lparr>isCommitReady := True, commitTimestamp := 100\<rparr>)
        (Error DuplicateKey) = Thrown (Error DuplicateKey)
   \<and> waitForCommitOrAbort replSecondary OK
        (build1\<lparr>aborted := True, abortTimestamp := 200, abortReason := ''dropped''\<rparr>)
        (Error DuplicateKey) = Returned 0
   \<and> canAcceptWritesFor replPrimary
   \<and> waitForCommitOrAbort replPrimary OK build1 OK = Returned 0"
  using waitForCommitOrAbort_result
          [of replSecondary "build1\<lparr>isCommitReady := True, commitTimestamp := 100\<rparr>" OK OK
              100 "[specA]" 1 "registered1 build1"
              "registered1 (build1\<lparr>isCommitReady := True, commitTimestamp := 100\<rparr>)" "[NotifyAll 1]"]
        waitForCommitOrAbort_result
          [of replSecondary "build1\<lparr>isCommitReady := True, commitTimestamp := 100\<rparr>" OK
              "Error DuplicateKey"]
        waitForCommitOrAbort_result
          [of replSecondary "build1\<lparr>aborted := True, abortTimestamp := 200, abortReason := ''dropped''\<rparr>"
              OK "Error DuplicateKey"]
        waitForCommitOrAbort_result [of replPrimary build1 OK OK]
  by (simp add: example_defs shouldWaitForCommitOrAbort_def isOK_def commitIndexBuild_def
      getIndexBuild_def isNull_def)

text \<open>
  Claim C8 as stated fails: woken with \<open>isCommitReady\<close> while an error of an earlier phase is
  held, the function throws that error and returns no timestamp.
\<close>

theorem commit_ready_with_held_error_throws:
  "isCommitReady (build1\<lparr>isCommitReady := True, commitTimestamp := 100\<rparr>)
   \<and> waitForCommitOrAbort replSecondary OK (build1\<lparr>isCommitReady := True, commitTimestamp := 100\<rparr>)
        (Error DuplicateKey) = Thrown (Error DuplicateKey)"
  by (simp add: example_defs driver_defs)

text \<open>
  Claim C9. The destructor either returns or fails an invariant. It asserts that the
  database tracker map, both blocker counter maps and the collection tracker map are empty,
  and returns exactly when they are. In a coordinator where every registered build is held
  by the tracker of its collection, which registration establishes and every operation
  keeps, an empty collection tracker map leaves no record in the by-id mapping: the
  destructor returns exactly when all three mappings and both blocker counter maps are
  empty.
\<close>

theorem destructor_asserted_conditions:
  "(destroyIndexBuildsCoordinator s = Returned () \<or> destroyIndexBuildsCoordinator s = InvariantFailure)
   \<and> ((destroyIndexBuildsCoordinator s = Returned ())
        = (databaseIndexBuilds s = [] \<and> disallowedDbs s = [] \<and> disallowedCollections s = []
           \<and> collectionIndexBuilds s = []))
   \<and> (everyBuildTracked s
        \<longrightarrow> (destroyIndexBuildsCoordinator s = Returned ())
            = (allIndexBuilds s = [] \<and> collectionIndexBuilds s = [] \<and> databaseIndexBuilds s = []
               \<and> disallowedCollections s = [] \<and> disallowedDbs s = []))"
proof -
  have "collectionIndexBuilds s = [] \<Longrightarrow> everyBuildTracked s \<Longrightarrow> allIndexBuilds s = []"
    by (cases "allIndexBuilds s") (auto simp add: everyBuildTracked_def)
  then show ?thesis
    by (auto simp add: destroyIndexBuildsCoordinator_def)
qed

theorem destructor_witness:
  "everyBuildTracked emptyCoordinator
   \<and> allIndexBuilds emptyCoordinator = []
   \<and> destroyIndexBuildsCoordinator emptyCoordinator = Returned ()
   \<and> everyBuildTracked (registered1 build1)
   \<and> allIndexBuilds (registered1 build1) \<noteq> []
   \<and> destroyIndexBuildsCoordinator (registered1 build1) = InvariantFailure"
proof -
  have e: "allIndexBuilds emptyCoordinator = [] \<and> databaseIndexBuilds emptyCoordinator = []
           \<and> disallowedDbs emptyCoordinator = [] \<and> disallowedCollections emptyCoordinator = []
           \<and> collectionIndexBuilds emptyCoordinator = []"
    by (simp add: emptyCoordinator_def)
  have t: "everyBuildTracked emptyCoordinator"
    by (simp add: emptyCoordinator_def everyBuildTracked_def)
  from destructor_asserted_conditions [of emptyCoordinator] e t
  have d1: "destroyIndexBuildsCoordinator emptyCoordinator = Returned ()" by blast
  have t2: "everyBuildTracked (registered1 build1)"
    by (simp add: example_defs everyBuildTracked_def)
  have ne: "allIndexBuilds (registered1 build1) \<noteq> []"
    by (simp add: registered1_def)
  from destructor_asserted_conditions [of "registered1 build1"] t2 ne
  have d2: "destroyIndexBuildsCoordinator (registered1 build1) = InvariantFailure" by blast
  from e t d1 t2 ne d2 show ?thesis by blast
qed

text \<open>
  Claim C10. For a build identifier that the registry does not hold, \<^verbatim>\<open>commitIndexBuild\<close>
  throws the \<open>NoSuchKey\<close> status of the lookup, while \<^verbatim>\<open>joinIndexBuild\<close> and
  \<^verbatim>\<open>abortIndexBuildByBuildUUID\<close> return, the latter with the coordinator unchanged.
\<close>

theorem unknown_build_commit_throws_join_abort_return:
  assumes "bid \<notin> fst ` set (allIndexBuilds s)"
  shows "commitIndexBuild opCtxTs specs bid s = Thrown (Error NoSuchKey)
       \<and> joinIndexBuild bid s = Returned ()
       \<and> abortIndexBuildByBuildUUID opCtxTs' bid reason s
           = Returned (s, [ManagerAbortIndexBuild bid reason])"
proof -
  from assms have "map_of (allIndexBuilds s) bid = None"
    by (simp add: map_of_eq_None_iff)
  then show ?thesis
    by (simp add: commitIndexBuild_def joinIndexBuild_def abortIndexBuildByBuildUUID_def
        getIndexBuild_def)
qed

theorem unknown_build_witness:
  "(2::UUID) \<notin> fst ` set (allIndexBuilds (registered1 build1))
   \<and> commitIndexBuild 100 [specA] 2 (registered1 build1) = Thrown (Error NoSuchKey)
   \<and> joinIndexBuild 2 (registered1 build1) = Returned ()
   \<and> abortIndexBuildByBuildUUID 100 2 ''dropped'' (registered1 build1)
       = Returned (registered1 build1, [ManagerAbortIndexBuild 2 ''dropped''])"
proof -
  have h: "(2::UUID) \<notin> fst ` set (allIndexBuilds (registered1 build1))"
    by (simp add: registered1_def)
  show ?thesis
    using h unknown_build_commit_throws_join_abort_return [OF h, of 100 "[specA]" 100 "''dropped''"]
    by simp
qed

end
